theory Spec2Isabelle
  imports Main "HOL-Library.List_Lexorder" "HOL-Library.Char_ord"
begin

section \<open>Common data\<close>

text \<open>
  File paths, tag names and tag values are Python strings; they are modelled as
  \<^typ>\<open>string\<close>, ordered lexicographically by character code as Python orders them.
  Exceptions are values of \<open>error\<close>; a function that may raise returns
  \<open>error + 'a\<close> with \<open>Inl\<close> for the exception.
\<close>

datatype error = ValueError | AssertionError | IndexError | KeyError | TypeError

section \<open>The tagged file database\<close>

text \<open>
  Modelled from the spec: the Tagged File Database (class \<open>Database\<close> of
  \<open>halfpipe/ingest/database.py\<close>, which is not among the sources). Per the spec,
  \<open>tagval\<close> returns a tag's value or no-value, \<open>associations\<close> answers a filtered
  query with a collection of files or no-value, \<open>fillmetadata\<close> extracts and caches a
  metadata value for each listed file that has none cached yet, and \<open>metadata\<close>
  returns the cached value or no-value. The tags, the answers to queries and what
  extraction would read are the fields \<open>tags\<close>, \<open>related\<close> and \<open>stored\<close>; the cache
  is the only part that changes. The keyword arguments of a query are a map from tag
  name to the requested value (which may itself be \<open>None\<close>).
\<close>

record 'v database =
  tags :: "string \<Rightarrow> string \<Rightarrow> string option"
  related :: "string \<Rightarrow> (string \<rightharpoonup> string option) \<Rightarrow> string list option"
  stored :: "string \<Rightarrow> string \<Rightarrow> 'v option"
  cached :: "string \<Rightarrow> string \<Rightarrow> 'v option"

definition tagval :: "'v database \<Rightarrow> string \<Rightarrow> string \<Rightarrow> string option" where
  "tagval d file_path tag = tags d file_path tag"

definition associations ::
  "'v database \<Rightarrow> string \<Rightarrow> (string \<rightharpoonup> string option) \<Rightarrow> string list option" where
  "associations d file_path filters = related d file_path filters"

definition fillmetadata :: "string \<Rightarrow> string list \<Rightarrow> 'v database \<Rightarrow> 'v database" where
  "fillmetadata key file_paths d =
     d\<lparr>cached := (\<lambda>f k. if k = key \<and> f \<in> set file_paths \<and> cached d f k = None
                          then stored d f k else cached d f k)\<rparr>"

definition metadata :: "'v database \<Rightarrow> string \<Rightarrow> string \<Rightarrow> 'v option" where
  "metadata d file_path key = cached d file_path key"

section \<open>File collection (halfpipe/ingest/collect.py)\<close>

subsection \<open>Externals and effects\<close>

text \<open>
  Functions of other packages and modules that the collection code calls are parameters:
  \<open>canonicalize_direction_code\<close> (which may raise), \<open>check_pes\<close> of sdcflows (which
  returns nothing or raises) and \<open>nvol\<close>, the volume count of an image file.
\<close>

record 'v externals =
  canonicalize_direction_code :: "'v option \<Rightarrow> string \<Rightarrow> error + string"
  check_pes :: "(string \<times> string) list \<Rightarrow> string \<Rightarrow> error + unit"
  nvol :: "string \<Rightarrow> int"

text \<open>
  The messages handed to the logger: the two informational messages of
  \<open>collect_fieldmaps\<close> with the sorted list of skipped files, and the warning of
  \<open>collect_bold_files\<close> with the number of other files in the group, the selected file,
  the excluded files and the decision criterion.
\<close>

datatype log_entry =
    MissingMagnitude "string list"
  | UnmatchedPhaseEncoding "string list"
  | IdenticalTags nat string "string list" string

text \<open>The mutable surroundings of a call: the database and the log.\<close>

record 'v world =
  db :: "'v database"
  logged :: "log_entry list"

definition logger :: "log_entry \<Rightarrow> 'v world \<Rightarrow> 'v world" where
  "logger entry w = w\<lparr>logged := logged w @ [entry]\<rparr>"

text \<open>
  A Python \<open>set\<close> built from a sequence is modelled as the list of its distinct
  elements; a loop over the set visits them in the order of that list. Python leaves
  the order unspecified; every result below that is returned is sorted or is a
  dictionary, and the properties proved speak of membership only.
\<close>

subsection \<open>collect\_events\<close>

text \<open>An element of the returned tuple: a bare path, or a path paired with its condition.\<close>

datatype condition_file = Bare string | Paired string string

fun condition_path :: "condition_file \<Rightarrow> string" where
  "condition_path (Bare p) = p"
| "condition_path (Paired p c) = p"

text \<open>
  The loop body after the subject test: a \<open>.txt\<close> candidate is paired with its
  condition tag, which must be a string (the \<open>assert\<close>).
\<close>

definition condition_file_of :: "'v database \<Rightarrow> string \<Rightarrow> error + condition_file" where
  "condition_file_of d candidate =
     (if tagval d candidate ''extension'' = Some ''.txt'' then
        (case tagval d candidate ''condition'' of
           None \<Rightarrow> Inl AssertionError
         | Some condition \<Rightarrow> Inr (Paired candidate condition))
      else Inr (Bare candidate))"

fun collect_events_loop ::
  "'v database \<Rightarrow> string option \<Rightarrow> string list \<Rightarrow> condition_file list
    \<Rightarrow> error + condition_file list" where
  "collect_events_loop d source_file_subject [] condition_files = Inr condition_files"
| "collect_events_loop d source_file_subject (candidate # rest) condition_files =
     (let subject = tagval d candidate ''sub'' in
      if subject \<noteq> None \<and> subject \<noteq> source_file_subject then
        collect_events_loop d source_file_subject rest condition_files
      else
        (case condition_file_of d candidate of
           Inl e \<Rightarrow> Inl e
         | Inr condition_file \<Rightarrow>
             collect_events_loop d source_file_subject rest
               (condition_files @ [condition_file])))"

definition collect_events ::
  "'v database \<Rightarrow> string \<Rightarrow> error + condition_file list option" where
  "collect_events d source_file =
     (case associations d source_file
             [''task'' \<mapsto> tagval d source_file ''task'',
              ''datatype'' \<mapsto> Some ''func'',
              ''suffix'' \<mapsto> Some ''events''] of
        None \<Rightarrow> Inr None
      | Some candidates \<Rightarrow>
          if length candidates = 0 then Inr None
          else
            (case collect_events_loop d (tagval d source_file ''sub'')
                    (sort (remdups candidates)) [] of
               Inl e \<Rightarrow> Inl e
             | Inr condition_files \<Rightarrow>
                 if length condition_files > 0 then Inr (Some condition_files)
                 else Inr None))"

subsection \<open>collect\_pe\_dir and collect\_fieldmaps\<close>

definition collect_pe_dir ::
  "'v externals \<Rightarrow> string \<Rightarrow> 'v world \<Rightarrow> (error + string) \<times> 'v world" where
  "collect_pe_dir ext c w =
     (let w' = w\<lparr>db := fillmetadata ''phase_encoding_direction'' [c] (db w)\<rparr> in
      (canonicalize_direction_code ext
         (metadata (db w') c ''phase_encoding_direction'') c, w'))"

text \<open>The dictionary \<open>magnitude_map\<close>.\<close>

definition magnitude_map :: "string \<rightharpoonup> string list" where
  "magnitude_map =
     [''phase1'' \<mapsto> [''magnitude1'', ''magnitude2''],
      ''phase2'' \<mapsto> [''magnitude1'', ''magnitude2''],
      ''phasediff'' \<mapsto> [''magnitude1'', ''magnitude2''],
      ''fieldmap'' \<mapsto> [''magnitude'']]"

text \<open>
  \<open>any(database.tagval(c, "suffix") in magnitude for c in candidates)\<close>; a candidate
  without suffix is in no list.
\<close>

definition has_magnitude :: "'v database \<Rightarrow> string list \<Rightarrow> string list \<Rightarrow> bool" where
  "has_magnitude d magnitude candidates =
     list_ex (\<lambda>c. case tagval d c ''suffix'' of
                     None \<Rightarrow> False
                   | Some s \<Rightarrow> s \<in> set magnitude) candidates"

text \<open>
  The first loop (``filter phase maps''): it runs over the candidates still to visit,
  with all candidates at hand, and collects \<open>incomplete\<close>.
\<close>

fun filter_phase_maps ::
  "'v database \<Rightarrow> string list \<Rightarrow> string list \<Rightarrow> string list \<Rightarrow> error + string list" where
  "filter_phase_maps d candidates [] incomplete = Inr incomplete"
| "filter_phase_maps d candidates (c # rest) incomplete =
     (case tagval d c ''suffix'' of
        None \<Rightarrow> Inl AssertionError
      | Some suffix \<Rightarrow>
          (case magnitude_map suffix of
             None \<Rightarrow> filter_phase_maps d candidates rest incomplete
           | Some magnitude \<Rightarrow>
               if \<not> has_magnitude d magnitude candidates then
                 filter_phase_maps d candidates rest (incomplete @ [c])
               else filter_phase_maps d candidates rest incomplete))"

text \<open>
  The second loop (``filter pepolar''): it collects every \<open>epi\<close> candidate with its
  phase-encoding direction. \<open>collect_pe_dir\<close> is called outside any \<open>try\<close>.
\<close>

fun filter_pepolar ::
  "'v externals \<Rightarrow> string list \<Rightarrow> (string \<times> string) list \<Rightarrow> 'v world
    \<Rightarrow> (error + (string \<times> string) list) \<times> 'v world" where
  "filter_pepolar ext [] epi_fmaps w = (Inr epi_fmaps, w)"
| "filter_pepolar ext (c # rest) epi_fmaps w =
     (case tagval (db w) c ''suffix'' of
        None \<Rightarrow> (Inl AssertionError, w)
      | Some suffix \<Rightarrow>
          if suffix \<noteq> ''epi'' then filter_pepolar ext rest epi_fmaps w
          else
            (case collect_pe_dir ext c w of
               (Inl e, w') \<Rightarrow> (Inl e, w')
             | (Inr pe_dir, w') \<Rightarrow>
                 filter_pepolar ext rest (epi_fmaps @ [(c, pe_dir)]) w'))"

text \<open>
  The \<open>except ValueError\<close> branch: all epi field maps are removed from the candidates.
\<close>

definition drop_epi_fmaps ::
  "bool \<Rightarrow> (string \<times> string) list \<Rightarrow> string list \<Rightarrow> 'v world \<Rightarrow> string list \<times> 'v world" where
  "drop_epi_fmaps silent epi_fmaps candidates w =
     (let incomplete = remdups (map fst epi_fmaps) in
      (filter (\<lambda>c. c \<notin> set incomplete) candidates,
       if \<not> silent then logger (UnmatchedPhaseEncoding (sort incomplete)) w else w))"

text \<open>
  The \<open>try\<close> statement: the arguments of \<open>check_pes\<close> are evaluated inside it, so a
  ValueError of the BOLD file's own \<open>collect_pe_dir\<close> is caught as well; any other
  exception leaves the function.
\<close>

definition check_epi_fmaps ::
  "'v externals \<Rightarrow> string \<Rightarrow> bool \<Rightarrow> (string \<times> string) list \<Rightarrow> string list \<Rightarrow> 'v world
    \<Rightarrow> (error + string list) \<times> 'v world" where
  "check_epi_fmaps ext bold_file_path silent epi_fmaps candidates w =
     (case collect_pe_dir ext bold_file_path w of
        (Inl e, w') \<Rightarrow>
          if e = ValueError then
            (case drop_epi_fmaps silent epi_fmaps candidates w' of
               (candidates', w'') \<Rightarrow> (Inr candidates', w''))
          else (Inl e, w')
      | (Inr pe_dir, w') \<Rightarrow>
          (case check_pes ext epi_fmaps pe_dir of
             Inl e \<Rightarrow>
               if e = ValueError then
                 (case drop_epi_fmaps silent epi_fmaps candidates w' of
                    (candidates', w'') \<Rightarrow> (Inr candidates', w''))
               else (Inl e, w')
           | Inr _ \<Rightarrow> (Inr candidates, w')))"

text \<open>The query of \<open>collect_fieldmaps\<close>: same subject, and same session if the BOLD file has one.\<close>

definition fieldmap_filters :: "'v database \<Rightarrow> string \<Rightarrow> (string \<rightharpoonup> string option)" where
  "fieldmap_filters d bold_file_path =
     (let sub = tagval d bold_file_path ''sub'';
          filters = [''sub'' \<mapsto> sub];
          session = tagval d bold_file_path ''ses'';
          filters = (if session \<noteq> None then filters(''ses'' \<mapsto> session) else filters)
      in filters(''datatype'' \<mapsto> Some ''fmap''))"

text \<open>The candidates after the first pass: \<open>candidates -= incomplete\<close>, with its log entry.\<close>

definition remove_incomplete ::
  "bool \<Rightarrow> string list \<Rightarrow> string list \<Rightarrow> 'v world \<Rightarrow> string list \<times> 'v world" where
  "remove_incomplete silent incomplete candidates w =
     (if length incomplete > 0 then
        (filter (\<lambda>c. c \<notin> set incomplete) candidates,
         if \<not> silent then logger (MissingMagnitude (sort incomplete)) w else w)
      else (candidates, w))"

definition collect_fieldmaps ::
  "'v externals \<Rightarrow> string \<Rightarrow> bool \<Rightarrow> 'v world \<Rightarrow> (error + string list) \<times> 'v world" where
  "collect_fieldmaps ext bold_file_path silent w =
     (case associations (db w) bold_file_path (fieldmap_filters (db w) bold_file_path) of
        None \<Rightarrow> (Inr [], w)
      | Some found \<Rightarrow>
          (let candidates = remdups found in
           case filter_phase_maps (db w) candidates candidates [] of
             Inl e \<Rightarrow> (Inl e, w)
           | Inr incomplete \<Rightarrow>
               (case remove_incomplete silent incomplete candidates w of
                  (candidates1, w1) \<Rightarrow>
                    (case filter_pepolar ext candidates1 [] w1 of
                       (Inl e, w2) \<Rightarrow> (Inl e, w2)
                     | (Inr epi_fmaps, w2) \<Rightarrow>
                         if length epi_fmaps > 0 then
                           (case check_epi_fmaps ext bold_file_path silent epi_fmaps
                                   candidates1 w2 of
                              (Inl e, w3) \<Rightarrow> (Inl e, w3)
                            | (Inr candidates2, w3) \<Rightarrow> (Inr (sort candidates2), w3))
                         else (Inr (sort candidates1), w2)))))"

subsection \<open>collect\_bold\_files\<close>

text \<open>
  The BIDS path translator (class \<open>BidsDatabase\<close> of \<open>halfpipe/ingest/bids.py\<close>) is not
  among the sources and is a parameter: a state of some type \<open>'b\<close>, its constructor over
  the database, \<open>put\<close>, which registers a file and may raise (the state it leaves is part
  of its result), and \<open>to_bids\<close>, which returns the canonical path of a file or
  \<open>None\<close> and may raise.
\<close>

record ('v, 'b) bids_database =
  bids_new :: "'v database \<Rightarrow> 'b"
  bids_put :: "'b \<Rightarrow> string \<Rightarrow> error option \<times> 'b"
  bids_to_bids :: "'b \<Rightarrow> string \<Rightarrow> error + string option"

text \<open>
  Modelled from the spec: the BIDS Path Translator itself (\<open>BidsDatabase\<close>), which is
  missing from the sources. Per the spec it keeps a one-to-one mapping from files to
  canonical paths; \<open>put(file)\<close> registers the file, deriving the canonical name from its
  tags, and fails if two distinct files would canonicalize to the same path (with the
  exception the caller catches, ValueError); \<open>to_bids(file)\<close> returns the canonical
  string of a previously-put file. The derivation of the name from the tags is the
  parameter \<open>bids_name\<close>; the state is the database and the list of registered files
  with their canonical paths.
\<close>

definition spec_bids ::
  "('v database \<Rightarrow> string \<Rightarrow> string)
    \<Rightarrow> ('v, 'v database \<times> (string \<times> string) list) bids_database" where
  "spec_bids bids_name =
     \<lparr>bids_new = (\<lambda>d. (d, [])),
      bids_put = (\<lambda>b file_path. case b of (d, registered) \<Rightarrow>
         if list_ex (\<lambda>(g, q). q = bids_name d file_path \<and> g \<noteq> file_path) registered
         then (Some ValueError, (d, registered))
         else (None, (d, if map_of registered file_path = None
                         then registered @ [(file_path, bids_name d file_path)]
                         else registered))),
      bids_to_bids = (\<lambda>b file_path. case b of (d, registered) \<Rightarrow>
         Inr (map_of registered file_path))\<rparr>"

text \<open>
  The first loop (``filter''): a BOLD file without T1w association is skipped; the
  others are entered into \<open>bold_file_paths_dict\<close> with their associated files. The
  dictionary is a map from path to list of paths.
\<close>

fun collect_associated ::
  "'v externals \<Rightarrow> string list \<Rightarrow> (string \<rightharpoonup> string list) \<Rightarrow> 'v world
    \<Rightarrow> (error + (string \<rightharpoonup> string list)) \<times> 'v world" where
  "collect_associated ext [] bold_file_paths_dict w = (Inr bold_file_paths_dict, w)"
| "collect_associated ext (bold_file_path # rest) bold_file_paths_dict w =
     (let sub = tagval (db w) bold_file_path ''sub'' in
      case associations (db w) bold_file_path [''datatype'' \<mapsto> Some ''anat'', ''sub'' \<mapsto> sub] of
        None \<Rightarrow> collect_associated ext rest bold_file_paths_dict w
      | Some t1ws \<Rightarrow>
          (case collect_fieldmaps ext bold_file_path False w of
             (Inl e, w') \<Rightarrow> (Inl e, w')
           | (Inr fmaps, w') \<Rightarrow>
               (let associated_file_paths = (bold_file_path # t1ws) @ fmaps;
                    associated_file_paths =
                      (case associations (db w') bold_file_path
                              [''datatype'' \<mapsto> Some ''func'', ''suffix'' \<mapsto> Some ''sbref'',
                               ''sub'' \<mapsto> sub] of
                         None \<Rightarrow> associated_file_paths
                       | Some sbrefs \<Rightarrow> associated_file_paths @ sbrefs)
                in collect_associated ext rest
                     (bold_file_paths_dict(bold_file_path \<mapsto> associated_file_paths)) w')))"

text \<open>
  \<open>bids_dict\<close> maps a canonical path to a set of BOLD files. It is an association
  list in insertion order, each set a list of distinct paths. Adding a file creates the
  entry of its canonical path when there is none.
\<close>

fun bids_dict_add ::
  "string \<Rightarrow> string \<Rightarrow> (string \<times> string list) list \<Rightarrow> (string \<times> string list) list" where
  "bids_dict_add bids_path bold_file_path [] = [(bids_path, [bold_file_path])]"
| "bids_dict_add bids_path bold_file_path ((k, pathset) # bids_dict) =
     (if k = bids_path then
        (k, if bold_file_path \<in> set pathset then pathset else pathset @ [bold_file_path])
          # bids_dict
      else (k, pathset) # bids_dict_add bids_path bold_file_path bids_dict)"

text \<open>
  The second loop: \<open>put\<close> and \<open>to_bids\<close> inside \<open>try\<close>; on ValueError the loop goes
  on to the next file (\<open>continue\<close>), any other exception leaves the function, and a
  canonical path of \<open>None\<close> fails the assertion.
\<close>

fun group_by_bids_path ::
  "('v, 'b) bids_database \<Rightarrow> string list \<Rightarrow> 'b \<Rightarrow> (string \<times> string list) list
    \<Rightarrow> error + (string \<times> string list) list" where
  "group_by_bids_path bd [] b bids_dict = Inr bids_dict"
| "group_by_bids_path bd (bold_file_path # rest) b bids_dict =
     (case bids_put bd b bold_file_path of
        (Some e, b') \<Rightarrow>
          if e = ValueError then group_by_bids_path bd rest b' bids_dict else Inl e
      | (None, b') \<Rightarrow>
          (case bids_to_bids bd b' bold_file_path of
             Inl e \<Rightarrow>
               if e = ValueError then group_by_bids_path bd rest b' bids_dict else Inl e
           | Inr None \<Rightarrow> Inl AssertionError
           | Inr (Some bids_path) \<Rightarrow>
               group_by_bids_path bd rest b'
                 (bids_dict_add bids_path bold_file_path bids_dict)))"

text \<open>
  The choice within one set: the files with the largest volume count, and of several
  the last in sorted order. \<open>max\<close> of nothing raises ValueError, and so does unpacking
  a \<open>selected\<close> that is not a singleton. The maximal count is returned with the
  choice, for the log message.
\<close>

definition select_bold_file :: "'v externals \<Rightarrow> string list \<Rightarrow> error + (string \<times> int)" where
  "select_bold_file ext bold_file_pathset =
     (case bold_file_pathset of
        [] \<Rightarrow> Inl ValueError
      | p # ps \<Rightarrow>
          (let max_nvol = fold max (map (nvol ext) ps) (nvol ext p);
               selected = filter (\<lambda>q. nvol ext q = max_nvol) bold_file_pathset;
               selected = (if length selected > 1 then [last (sort selected)] else selected)
           in case selected of
                [selectedbold_file_path] \<Rightarrow> Inr (selectedbold_file_path, max_nvol)
              | _ \<Rightarrow> Inl ValueError))"

text \<open>
  ``remove excluded files'': \<open>del\<close> of every file of the set other than the selected
  one; \<open>del\<close> of a missing key raises KeyError.
\<close>

fun remove_excluded ::
  "string list \<Rightarrow> string \<Rightarrow> (string \<rightharpoonup> string list) \<Rightarrow> error + (string \<rightharpoonup> string list)" where
  "remove_excluded [] selectedbold_file_path bold_file_paths_dict = Inr bold_file_paths_dict"
| "remove_excluded (bold_file_path # rest) selectedbold_file_path bold_file_paths_dict =
     (if bold_file_path \<noteq> selectedbold_file_path then
        (case bold_file_paths_dict bold_file_path of
           None \<Rightarrow> Inl KeyError
         | Some _ \<Rightarrow>
             remove_excluded rest selectedbold_file_path
               (bold_file_paths_dict(bold_file_path := None)))
      else remove_excluded rest selectedbold_file_path bold_file_paths_dict)"

text \<open>
  The third loop, over the values of \<open>bids_dict\<close>. After the inner loop that lists the
  excluded files, the loop variable holds the last file of the set; its volume count
  decides the criterion that is logged.
\<close>

fun resolve_duplicates ::
  "'v externals \<Rightarrow> string list list \<Rightarrow> (string \<rightharpoonup> string list) \<Rightarrow> 'v world
    \<Rightarrow> (error + (string \<rightharpoonup> string list)) \<times> 'v world" where
  "resolve_duplicates ext [] bold_file_paths_dict w = (Inr bold_file_paths_dict, w)"
| "resolve_duplicates ext (bold_file_pathset # rest) bold_file_paths_dict w =
     (if length bold_file_pathset = 1 then resolve_duplicates ext rest bold_file_paths_dict w
      else
        (case select_bold_file ext bold_file_pathset of
           Inl e \<Rightarrow> (Inl e, w)
         | Inr (selectedbold_file_path, max_nvol) \<Rightarrow>
             (let w' = logger
                    (IdenticalTags (length bold_file_pathset - 1) selectedbold_file_path
                       (filter (\<lambda>p. p \<noteq> selectedbold_file_path) bold_file_pathset)
                       (if nvol ext (last bold_file_pathset) < max_nvol
                        then ''Image with the longest duration''
                        else ''Last image when sorting alphabetically'')) w
              in case remove_excluded bold_file_pathset selectedbold_file_path
                        bold_file_paths_dict of
                   Inl e \<Rightarrow> (Inl e, w')
                 | Inr bold_file_paths_dict' \<Rightarrow>
                     resolve_duplicates ext rest bold_file_paths_dict' w')))"

text \<open>
  \<open>collect_bold_files\<close>. The source files of the two factories are given as lists; their
  union is the set \<open>bold_file_paths\<close>, which is then intersected with the keys of the
  dictionary.
\<close>

definition collect_bold_files ::
  "'v externals \<Rightarrow> ('v, 'b) bids_database \<Rightarrow> string list \<Rightarrow> string list \<Rightarrow> 'v world
    \<Rightarrow> (error + (string \<rightharpoonup> string list)) \<times> 'v world" where
  "collect_bold_files ext bd setting_source_files feature_source_files w =
     (let bold_file_paths = remdups (setting_source_files @ feature_source_files) in
      case collect_associated ext bold_file_paths Map.empty w of
        (Inl e, w1) \<Rightarrow> (Inl e, w1)
      | (Inr bold_file_paths_dict, w1) \<Rightarrow>
          (let bold_file_paths = filter (\<lambda>p. bold_file_paths_dict p \<noteq> None) bold_file_paths in
           case group_by_bids_path bd bold_file_paths (bids_new bd (db w1)) [] of
             Inl e \<Rightarrow> (Inl e, w1)
           | Inr bids_dict \<Rightarrow>
               resolve_duplicates ext (map snd bids_dict) bold_file_paths_dict w1))"

section \<open>Switch-with-select control (tui/feature\_widgets/task\_based/taskbased.py)\<close>

text \<open>
  \<open>SwitchWithSelect.__init__\<close> stores \<open>[] if options is None else options\<close>.
  An option is a pair whose first component is shown (through \<open>str\<close>) and whose second
  component is the value.
\<close>

definition switch_with_select_init :: "('l \<times> 'v) list option \<Rightarrow> ('l \<times> 'v) list" where
  "switch_with_select_init options = (case options of None \<Rightarrow> [] | Some os \<Rightarrow> os)"

text \<open>The \<open>Select\<close> widget as \<open>compose\<close> constructs it.\<close>

record 'v select_widget =
  select_options :: "(string \<times> 'v) list"
  select_value :: 'v
  allow_blank :: bool
  select_id :: string

text \<open>
  \<open>compose\<close> builds the option list by a comprehension and reads
  \<open>self.options[0][1]\<close>; on an empty list that subscript raises IndexError.
  \<open>str_of\<close> stands for Python's \<open>str\<close> on the first components.
\<close>

definition switch_with_select_compose ::
  "('l \<Rightarrow> string) \<Rightarrow> ('l \<times> 'v) list \<Rightarrow> error + 'v select_widget" where
  "switch_with_select_compose str_of options =
     (let shown = map (\<lambda>value. (str_of (fst value), snd value)) options in
      case options of
        [] \<Rightarrow> Inl IndexError
      | first # _ \<Rightarrow>
          Inr \<lparr>select_options = shown, select_value = snd first,
               allow_blank = False, select_id = ''input_switch_input_box''\<rparr>)"

section \<open>Initial-volumes modal and preprocessing widget (tui/preprocessing/base.py)\<close>

text \<open>
  \<open>ctx.spec.global_settings\<close> is a dictionary; its values are integers, booleans or
  Python's \<open>None\<close> (the auto-detect sentinel of \<open>dummy_scans\<close>).
\<close>

datatype setting_value = IntValue int | BoolValue bool | NoValue

text \<open>
  The part of the application state the handlers of \<open>Preprocessing\<close> read or write:
  the global settings of the specification and the widgets addressed by identifier.
\<close>

record preprocessing =
  global_settings :: "string \<rightharpoonup> setting_value"
  manualy_set_volumes_to_remove_label :: string
  remove_volumes_value :: string
  remove_volumes_value_border :: "(string \<times> string) option"
  remove_volumes_value_visibility :: string
  edit_button_visibility :: string

text \<open>
  \<open>SetInitialVolumesRemovalModal\<close>: the OK button dismisses the modal with the text of
  the input, or with \<open>"0"\<close> when the input is blank; the Cancel button dismisses it
  with \<open>None\<close>. The payload of a dismissal is handed to the callback given to
  \<open>push_screen\<close>.
\<close>

definition on_ok_button_pressed :: "string \<Rightarrow> string option" where
  "on_ok_button_pressed input_value =
     (if input_value = [] then Some ''0'' else Some input_value)"

definition on_cancel_button_pressed :: "string option" where
  "on_cancel_button_pressed = None"

text \<open>\<open>Preprocessing.update_remove_initial_volumes_value\<close>, the callback of the modal.\<close>

definition update_remove_initial_volumes_value ::
  "string option \<Rightarrow> preprocessing \<Rightarrow> preprocessing" where
  "update_remove_initial_volumes_value val s =
     (case val of
        None \<Rightarrow> s
      | Some v \<Rightarrow> s\<lparr>remove_volumes_value := v,
                    remove_volumes_value_border := Some (''solid'', ''green'')\<rparr>)"

text \<open>\<open>Preprocessing._on_via_algorithm_switch_changed\<close>, with \<open>message.value\<close> as argument.\<close>

definition on_via_algorithm_switch_changed :: "bool \<Rightarrow> preprocessing \<Rightarrow> preprocessing" where
  "on_via_algorithm_switch_changed message_value s =
     (if message_value then
        s\<lparr>manualy_set_volumes_to_remove_label :=
             ''Turn of 'Detect non-steady-state via algorithm' to set manually number of initial volumes to remove'',
          edit_button_visibility := ''hidden'',
          remove_volumes_value_visibility := ''hidden''\<rparr>
      else
        s\<lparr>manualy_set_volumes_to_remove_label := ''Remove initial volumes from scans'',
          edit_button_visibility := ''visible'',
          remove_volumes_value_visibility := ''visible''\<rparr>)"

text \<open>\<open>Preprocessing.on_run_recon_all_switch_changed\<close>, the handler that does write a setting.\<close>

definition on_run_recon_all_switch_changed :: "bool \<Rightarrow> preprocessing \<Rightarrow> preprocessing" where
  "on_run_recon_all_switch_changed event_value s =
     s\<lparr>global_settings := (global_settings s)(''run_reconall'' \<mapsto> BoolValue event_value)\<rparr>"

text \<open>
  The state after \<open>compose\<close> and \<open>on_mount\<close>, over given global settings: the label
  texts are those passed to the \<open>Static\<close> widgets.
\<close>

definition preprocessing_mounted :: "(string \<rightharpoonup> setting_value) \<Rightarrow> preprocessing" where
  "preprocessing_mounted gs =
     \<lparr>global_settings = gs,
      manualy_set_volumes_to_remove_label = ''Remove initial volumes from scans'',
      remove_volumes_value = ''0'',
      remove_volumes_value_border = None,
      remove_volumes_value_visibility = ''visible'',
      edit_button_visibility = ''visible''\<rparr>"

section \<open>Directory browser and compact file-browser control (tui/utils/filebrowser.py)\<close>

text \<open>
  \<open>FileBrowserScreen\<close> dismisses with the text of its path input on confirmation and
  with \<open>None\<close> on the Cancel button and on the escape key.
\<close>

definition confirm_window :: "string \<Rightarrow> string option" where
  "confirm_window path_input_value = Some path_input_value"

definition cancel_window :: "string option" where
  "cancel_window = None"

definition key_escape :: "string option" where
  "key_escape = cancel_window"

datatype file_browser_message = Changed string

text \<open>
  The \<open>FileBrowser\<close> control: its label (the displayed text and the \<open>value\<close> attribute
  that \<open>update_input\<close> assigns), the reactive attribute \<open>selected_path\<close> and the
  messages posted so far.
\<close>

record file_browser =
  path_to :: string
  label_text :: string
  label_value :: "string option"
  selected_path :: string
  posted :: "file_browser_message list"

definition file_browser_composed :: "string \<Rightarrow> file_browser" where
  "file_browser_composed p =
     \<lparr>path_to = p, label_text = p @ '':'', label_value = None,
      selected_path = [], posted = []\<rparr>"

text \<open>
  Assigning a reactive attribute stores the value and calls its watcher when the value
  differs from the current one; \<open>watch_selected_path\<close> posts \<open>Changed\<close>.
\<close>

definition set_selected_path :: "string \<Rightarrow> file_browser \<Rightarrow> file_browser" where
  "set_selected_path v s =
     (if selected_path s = v then s
      else s\<lparr>selected_path := v, posted := posted s @ [Changed v]\<rparr>)"

text \<open>Python's \<open>str\<close> on the payload of a dismissal.\<close>

definition py_str :: "string option \<Rightarrow> string" where
  "py_str x = (case x of None \<Rightarrow> ''None'' | Some v \<Rightarrow> v)"

text \<open>
  \<open>FileBrowser.update_input\<close>, the callback of the browser modal. Its guard is
  \<open>selected_path != ""\<close>, which \<open>None\<close> passes.
\<close>

definition update_input :: "string option \<Rightarrow> file_browser \<Rightarrow> file_browser" where
  "update_input sp s =
     (if sp \<noteq> Some [] then
        set_selected_path (py_str sp)
          (s\<lparr>label_text := path_to s @ '': '' @ py_str sp,
             label_value := Some (path_to s @ '': '' @ py_str sp)\<rparr>)
      else s)"

section \<open>Metadata confirmation steps (halfpipe/ui/metadata.py)\<close>

text \<open>
  Metadata values are Python objects of some type \<open>'v\<close>, ordered as numpy sorts them.
  The functions of other modules and packages are parameters: \<open>humanize\<close>, the
  string method \<open>lower\<close>, \<open>direction_code_str\<close>, \<open>slice_timing_str\<close>,
  \<open>np.array2string\<close>, and \<open>format\<close> for the text an f-string produces for a value
  (for a string, the string itself: \<open>sts == "unknown"\<close> is the test
  \<open>format sts = "unknown"\<close>).
\<close>

record 'v ui_externals =
  humanize :: "string \<Rightarrow> string"
  lower :: "string \<Rightarrow> string"
  direction_code_str :: "'v \<Rightarrow> string \<Rightarrow> 'v"
  slice_timing_str :: "'v \<Rightarrow> 'v"
  array2string :: "'v \<Rightarrow> 'v"
  format :: "'v \<Rightarrow> string"

definition display_str :: "'v ui_externals \<Rightarrow> string \<Rightarrow> string" where
  "display_str ui x =
     (if x = ''MNI152NLin6Asym'' then
        ''MNI ICBM 152 non-linear 6th Generation Asymmetric (FSL)''
      else if x = ''MNI152NLin2009cAsym'' then ''MNI ICBM 2009c Nonlinear Asymmetric''
      else humanize ui x)"

text \<open>The views a step appends, by constructor and arguments.\<close>

datatype view =
    TextView string
  | SpacerView nat
  | NumberInputView
  | SingleChoiceInputView "string list" bool
  | FileInputView

text \<open>
  The class attributes of a \<open>CheckMetadataStep\<close> subclass that \<open>setup\<close> reads: the
  key, the unit that \<open>_get_unit(schema, key)\<close> finds in the schema, and what the hook
  \<open>_should_skip\<close> returns (\<open>False\<close> in the base class).
\<close>

record step_class =
  step_key :: string
  step_unit :: "string option"
  step_should_skip :: bool

text \<open>The instance attributes of a \<open>CheckMetadataStep\<close>.\<close>

record check_metadata_step =
  is_first_run :: bool
  should_skip :: bool
  choice :: "string option"
  is_missing :: bool
  suggestion :: "string option"
  views :: "view list"

text \<open>The rendering of direction-valued and slice-timing values, in place in \<open>vals\<close>.\<close>

definition render_vals ::
  "'v ui_externals \<Rightarrow> string \<Rightarrow> string list \<Rightarrow> 'v option list \<Rightarrow> 'v option list" where
  "render_vals ui k filepaths vals =
     (if k = ''phase_encoding_direction'' \<or> k = ''slice_encoding_direction'' then
        map (\<lambda>(val, filepath).
               case val of None \<Rightarrow> None
                         | Some v \<Rightarrow> Some (direction_code_str ui v filepath))
          (zip vals filepaths)
      else if k = ''slice_timing'' then
        map (\<lambda>val.
               case val of None \<Rightarrow> None
                         | Some v \<Rightarrow>
                             (let sts = slice_timing_str ui v in
                              Some (if format ui sts = ''unknown'' then array2string ui v
                                    else sts)))
          vals
      else vals)"

text \<open>
  \<open>np.unique(vals, return_counts=True)\<close>: the sorted distinct values and the number
  of occurrences of each. The list holds Python objects; sorting a list in which
  \<open>None\<close> stands beside other values raises TypeError.
\<close>

fun present :: "'a option list \<Rightarrow> 'a list" where
  "present [] = []"
| "present (None # vals) = present vals"
| "present (Some v # vals) = v # present vals"

definition np_unique :: "'v::linorder option list \<Rightarrow> error + ('v list \<times> nat list)" where
  "np_unique vals =
     (if list_ex (\<lambda>val. val = None) vals then Inl TypeError
      else
        (let uniquevals = sort (remdups (present vals)) in
         Inr (uniquevals, map (count_list (present vals)) uniquevals)))"

text \<open>The decimal text of a count, and right-justification as the format \<open>:>{width}\<close>.\<close>

fun format_nat :: "nat \<Rightarrow> string" where
  "format_nat n =
     (if n < 10 then [''0123456789'' ! n]
      else format_nat (n div 10) @ [''0123456789'' ! (n mod 10)])"

declare format_nat.simps [simp del]

definition rjust :: "nat \<Rightarrow> string \<Rightarrow> string" where
  "rjust width s = replicate (width - length s) CHR '' '' @ s"

text \<open>
  The two loops of the \<open>else\<close> branch run over \<open>range(min(10, len(order)))\<close> and index
  \<open>counts\<close> and \<open>uniquevals\<close> by the loop variable; \<open>order\<close>, the result of
  \<open>np.argsort(counts)\<close>, is used for its length only, which is the number of distinct
  values. \<open>listed\<close> is the list of the pairs \<open>(counts[i], uniquevals[i])\<close> the loops
  visit.
\<close>

definition listed :: "'v list \<times> nat list \<Rightarrow> (nat \<times> 'v) list" where
  "listed uc = (case uc of (uniquevals, counts) \<Rightarrow>
     take (min 10 (length uniquevals)) (zip counts uniquevals))"

definition column1_of :: "(nat \<times> 'v) list \<Rightarrow> string list" where
  "column1_of rows = map (\<lambda>(c, u). format_nat c @ '' images'') rows"

definition row_view :: "'v ui_externals \<Rightarrow> nat \<Rightarrow> string \<Rightarrow> nat \<times> 'v \<Rightarrow> view" where
  "row_view ui column1width unit_str row = (case row of (c, u) \<Rightarrow>
     TextView ('' '' @ rjust column1width (format_nat c @ '' images'') @ '' - ''
               @ display_str ui (format ui u) @ '' '' @ unit_str))"

text \<open>
  \<open>CheckMetadataStep.setup\<close> (here \<open>setup_step\<close>). The file paths the database resolves for the step (from
  the last file of the specification, or from the filters) are the argument
  \<open>filepaths\<close>. The result is the step with its attributes set and the database after
  the back-fill, or the exception raised. \<open>max\<close> of an empty \<open>column1\<close> raises
  ValueError.
\<close>

definition setup_step ::
  "'v::linorder ui_externals \<Rightarrow> step_class \<Rightarrow> string list \<Rightarrow> 'v database
    \<Rightarrow> error + (check_metadata_step \<times> 'v database)" where
  "setup_step ui cls filepaths d =
     (let step = \<lparr>is_first_run = True, should_skip = step_should_skip cls, choice = None,
                  is_missing = True, suggestion = None, views = []\<rparr>
      in if step_should_skip cls then Inr (step, d)
      else
        (let humankey = lower ui (humanize ui (step_key cls));
             d' = fillmetadata (step_key cls) filepaths d;
             vals = map (\<lambda>filepath. metadata d' filepath (step_key cls)) filepaths;
             vals = render_vals ui (step_key cls) filepaths vals
         in if list_all (\<lambda>val. val = None) vals then Inr (step, d')
         else
           (case np_unique vals of
              Inl e \<Rightarrow> Inl e
            | Inr uc \<Rightarrow>
                (let rows = listed uc;
                     column1 = column1_of rows
                 in if column1 = [] then Inl ValueError
                 else
                   (let column1width = fold max (map length (tl column1)) (length (hd column1));
                        unit_str = (case step_unit cls of None \<Rightarrow> [] | Some u \<Rightarrow> u);
                        unit_str = (if step_key cls = ''slice_timing'' then [] else unit_str)
                    in Inr
                      (step\<lparr>is_missing := False,
                            suggestion :=
                              (case rows of
                                 [] \<Rightarrow> None
                               | (c, u) # _ \<Rightarrow> Some (display_str ui (format ui u))),
                            views :=
                              [TextView (''Check '' @ humankey @ '' values'')]
                              @ map (row_view ui column1width unit_str) rows
                              @ (if length (fst uc) > 10 then [TextView ''...''] else [])
                              @ [TextView ''Proceed with these values?'',
                                 SingleChoiceInputView [''Yes'', ''No''] False,
                                 SpacerView 1]\<rparr>,
                       d'))))))"

text \<open>
  \<open>CheckMetadataStep.run\<close>. The argument \<open>answer\<close> is what the input view returns when
  it is called (\<open>None\<close> when the user cancels). The result tells whether the wizard
  goes on, whether the input view was called, and the step.
\<close>

definition run_step :: "check_metadata_step \<Rightarrow> string option \<Rightarrow> bool \<times> bool \<times> check_metadata_step" where
  "run_step step answer =
     (if is_missing step then (is_first_run step, False, step)
      else (answer \<noteq> None, True, step\<lparr>choice := answer\<rparr>))"

text \<open>
  \<open>CheckMetadataStep.next\<close>: it calls the continuation step, or constructs and calls a
  \<open>SetMetadataStep\<close> with the suggestion, or does neither and returns \<open>None\<close>.
\<close>

datatype transition = Continuation | ToSetMetadataStep "string option" | NoTransition

definition next_step :: "check_metadata_step \<Rightarrow> transition \<times> check_metadata_step" where
  "next_step step =
     (if is_first_run step \<or> \<not> is_missing step then
        (if choice step = Some ''Yes'' \<or> should_skip step then Continuation
         else ToSetMetadataStep (suggestion step),
         step\<lparr>is_first_run := False\<rparr>)
      else (NoTransition, step))"

section \<open>Specification-side notions and proof auxiliaries\<close>

subsection \<open>Event candidates\<close>

text \<open>
  In the words of the spec: the candidates of a functional run are the event files the
  database associates with it under the same task; they are de-duplicated and sorted,
  and a candidate that declares a subject other than the run's does not survive.
\<close>

definition surviving_events :: "'v database \<Rightarrow> string \<Rightarrow> string list" where
  "surviving_events d source_file =
     filter (\<lambda>c. tagval d c ''sub'' = None \<or> tagval d c ''sub'' = tagval d source_file ''sub'')
       (sort (remdups
          (case associations d source_file
                  [''task'' \<mapsto> tagval d source_file ''task'',
                   ''datatype'' \<mapsto> Some ''func'',
                   ''suffix'' \<mapsto> Some ''events''] of
             None \<Rightarrow> [] | Some candidates \<Rightarrow> candidates)))"

text \<open>Auxiliaries of the proof about the loop of \<open>collect_events\<close>.\<close>

definition same_subject :: "'v database \<Rightarrow> string option \<Rightarrow> string \<Rightarrow> bool" where
  "same_subject d subj c = (tagval d c ''sub'' = None \<or> tagval d c ''sub'' = subj)"

definition lacks_condition :: "'v database \<Rightarrow> string \<Rightarrow> bool" where
  "lacks_condition d c =
     (tagval d c ''extension'' = Some ''.txt'' \<and> tagval d c ''condition'' = None)"

definition paired_as :: "'v database \<Rightarrow> string \<Rightarrow> condition_file" where
  "paired_as d c =
     (if tagval d c ''extension'' = Some ''.txt''
      then Paired c (the (tagval d c ''condition'')) else Bare c)"

subsection \<open>Field maps\<close>

text \<open>
  In the words of the spec: a phase-difference-style field map (suffix \<open>phase1\<close>,
  \<open>phase2\<close> or \<open>phasediff\<close>) needs a \<open>magnitude1\<close> or \<open>magnitude2\<close> file among the
  candidates, and a \<open>fieldmap\<close> needs a \<open>magnitude\<close> file.
\<close>

definition magnitude_complete :: "'v database \<Rightarrow> string list \<Rightarrow> string \<Rightarrow> bool" where
  "magnitude_complete d candidates c =
     (\<not> (tagval d c ''suffix'' \<in> {Some ''phase1'', Some ''phase2'', Some ''phasediff''}
         \<and> \<not> (\<exists>m \<in> set candidates.
                 tagval d m ''suffix'' \<in> {Some ''magnitude1'', Some ''magnitude2''}))
      \<and> \<not> (tagval d c ''suffix'' = Some ''fieldmap''
         \<and> \<not> (\<exists>m \<in> set candidates. tagval d m ''suffix'' = Some ''magnitude'')))"

text \<open>
  The phase-encoding direction that \<open>collect_pe_dir\<close> hands to the canonicalization:
  the metadata value of the file after back-fill.
\<close>

definition filled_pe_dir :: "'v database \<Rightarrow> string \<Rightarrow> 'v option" where
  "filled_pe_dir d c =
     metadata (fillmetadata ''phase_encoding_direction'' [c] d) c ''phase_encoding_direction''"

text \<open>Auxiliaries of the proofs about the two loops of \<open>collect_fieldmaps\<close>.\<close>

definition is_incomplete :: "'v database \<Rightarrow> string list \<Rightarrow> string \<Rightarrow> bool" where
  "is_incomplete d candidates c =
     (case tagval d c ''suffix'' of
        None \<Rightarrow> False
      | Some suffix \<Rightarrow>
          (case magnitude_map suffix of
             None \<Rightarrow> False
           | Some magnitude \<Rightarrow> \<not> has_magnitude d magnitude candidates))"

definition read_pe_dir :: "'v database \<Rightarrow> string \<Rightarrow> 'v option" where
  "read_pe_dir d c =
     (case cached d c ''phase_encoding_direction'' of
        None \<Rightarrow> stored d c ''phase_encoding_direction''
      | Some v \<Rightarrow> Some v)"

definition same_files :: "'v database \<Rightarrow> 'v database \<Rightarrow> bool" where
  "same_files d d' =
     (tags d' = tags d \<and> related d' = related d \<and> read_pe_dir d' = read_pe_dir d)"

text \<open>
  The condition under which \<open>collect_fieldmaps\<close> returns: the query finds nothing, or
  every candidate has a suffix, the direction of every \<open>epi\<close> candidate canonicalizes
  and, if there is an \<open>epi\<close> candidate, the \<open>try\<close> statement raises nothing but
  ValueError. \<open>epi_fmaps_of\<close> is the list handed to \<open>check_pes\<close>.
\<close>

definition epi_candidates :: "'v database \<Rightarrow> string list \<Rightarrow> string list" where
  "epi_candidates d found = filter (\<lambda>c. tagval d c ''suffix'' = Some ''epi'') (remdups found)"

definition epi_fmaps_of :: "'v externals \<Rightarrow> 'v database \<Rightarrow> string list \<Rightarrow> (string \<times> string) list" where
  "epi_fmaps_of ext d found =
     map (\<lambda>c. (c, case canonicalize_direction_code ext (filled_pe_dir d c) c of
                    Inl e \<Rightarrow> [] | Inr pe_dir \<Rightarrow> pe_dir))
       (epi_candidates d found)"

definition fieldmaps_return :: "'v externals \<Rightarrow> string \<Rightarrow> 'v database \<Rightarrow> bool" where
  "fieldmaps_return ext bold_file_path d =
     (case associations d bold_file_path (fieldmap_filters d bold_file_path) of
        None \<Rightarrow> True
      | Some found \<Rightarrow>
          list_all (\<lambda>c. tagval d c ''suffix'' \<noteq> None) found
          \<and> list_all (\<lambda>c. case canonicalize_direction_code ext (filled_pe_dir d c) c of
                             Inl e \<Rightarrow> False | Inr pe_dir \<Rightarrow> True)
                (epi_candidates d found)
          \<and> (epi_candidates d found = []
               \<or> (case canonicalize_direction_code ext (filled_pe_dir d bold_file_path)
                          bold_file_path of
                     Inl e \<Rightarrow> e = ValueError
                   | Inr pe_dir \<Rightarrow>
                       (case check_pes ext (epi_fmaps_of ext d found) pe_dir of
                          Inl e \<Rightarrow> e = ValueError
                        | Inr u \<Rightarrow> True))))"

text \<open>Auxiliaries of the proof about the second loop.\<close>

definition pe_ok :: "'v externals \<Rightarrow> 'v database \<Rightarrow> string \<Rightarrow> bool" where
  "pe_ok ext d c =
     (case canonicalize_direction_code ext (read_pe_dir d c) c of
        Inl e \<Rightarrow> False | Inr pe_dir \<Rightarrow> True)"

definition pe_dir_of :: "'v externals \<Rightarrow> 'v database \<Rightarrow> string \<Rightarrow> string" where
  "pe_dir_of ext d c =
     (case canonicalize_direction_code ext (read_pe_dir d c) c of
        Inl e \<Rightarrow> [] | Inr pe_dir \<Rightarrow> pe_dir)"

subsection \<open>Duplicate runs\<close>

text \<open>
  In the words of the spec: within a group, the kept run is one with the maximum volume
  count and, among the runs tied at the maximum, the alphabetically last.
\<close>

definition kept_run :: "'v externals \<Rightarrow> string list \<Rightarrow> string \<Rightarrow> bool" where
  "kept_run ext pathset sel =
     (sel \<in> set pathset
      \<and> (\<forall>p \<in> set pathset. nvol ext p \<le> nvol ext sel)
      \<and> (\<forall>p \<in> set pathset. nvol ext p = nvol ext sel \<longrightarrow> p \<le> sel))"


text \<open>Auxiliaries of the proofs about the third loop of \<open>collect_bold_files\<close>.\<close>

definition chosen :: "'v externals \<Rightarrow> string list \<Rightarrow> string" where
  "chosen ext pathset =
     last (sort (filter (\<lambda>q. nvol ext q = Max (nvol ext ` set pathset)) pathset))"

definition excluded_files :: "'v externals \<Rightarrow> string list list \<Rightarrow> string set" where
  "excluded_files ext pathsets = (\<Union>g \<in> set pathsets. set g - {chosen ext g})"

text \<open>
  Auxiliary of the proof about the second loop under the translator of the spec: every
  registered path is the canonical name of its file, and every set of \<open>bids_dict\<close>
  holds one file, registered under the key of the set.
\<close>

definition registry_ok ::
  "('v database \<Rightarrow> string \<Rightarrow> string) \<Rightarrow> 'v database \<times> (string \<times> string) list
    \<Rightarrow> (string \<times> string list) list \<Rightarrow> bool" where
  "registry_ok bids_name b bids_dict =
     (case b of (d, registered) \<Rightarrow>
        (\<forall>(g, q) \<in> set registered. q = bids_name d g)
        \<and> (\<forall>(k, pathset) \<in> set bids_dict. \<exists>f. pathset = [f] \<and> (f, k) \<in> set registered))"

subsection \<open>Metadata values of a step\<close>

text \<open>
  The values \<open>CheckMetadataStep.setup\<close> collects for its files: the metadata of each
  file after back-fill, rendered as \<open>setup\<close> renders them.
\<close>

definition observed_vals ::
  "'v ui_externals \<Rightarrow> step_class \<Rightarrow> string list \<Rightarrow> 'v database \<Rightarrow> 'v option list" where
  "observed_vals ui cls filepaths d =
     render_vals ui (step_key cls) filepaths
       (map (\<lambda>filepath. metadata (fillmetadata (step_key cls) filepaths d) filepath (step_key cls))
          filepaths)"

text \<open>Auxiliary of the proofs: the rendering of one value.\<close>

definition render_val :: "'v ui_externals \<Rightarrow> string \<Rightarrow> string \<Rightarrow> 'v \<Rightarrow> 'v" where
  "render_val ui k filepath v =
     (if k = ''phase_encoding_direction'' \<or> k = ''slice_encoding_direction''
      then direction_code_str ui v filepath
      else if k = ''slice_timing''
      then (if format ui (slice_timing_str ui v) = ''unknown'' then array2string ui v
            else slice_timing_str ui v)
      else v)"

section \<open>Example inputs\<close>

text \<open>
  A database with one functional run of subject 01 and three event files of its task:
  one of subject 01, one of subject 02 and a condition file without subject, which the
  query returns twice.
\<close>

definition events_example :: "string database" where
  "events_example =
     \<lparr>tags = (\<lambda>f t. map_of
         [((''sub-01_task-rest_bold.nii'', ''sub''), ''01''),
          ((''sub-01_task-rest_bold.nii'', ''task''), ''rest''),
          ((''sub-01_task-rest_events.tsv'', ''sub''), ''01''),
          ((''sub-01_task-rest_events.tsv'', ''extension''), ''.tsv''),
          ((''sub-02_task-rest_events.tsv'', ''sub''), ''02''),
          ((''sub-02_task-rest_events.tsv'', ''extension''), ''.tsv''),
          ((''task-rest_faces.txt'', ''extension''), ''.txt''),
          ((''task-rest_faces.txt'', ''condition''), ''faces'')] (f, t)),
      related = (\<lambda>f q.
         if f = ''sub-01_task-rest_bold.nii'' \<and> q ''task'' = Some (Some ''rest'')
            \<and> q ''suffix'' = Some (Some ''events'')
         then Some [''task-rest_faces.txt'', ''sub-02_task-rest_events.tsv'',
                    ''sub-01_task-rest_events.tsv'', ''task-rest_faces.txt'']
         else None),
      stored = (\<lambda>f k. None),
      cached = (\<lambda>f k. None)\<rparr>"

text \<open>
  Stand-ins for the external functions: a canonicalization that returns a present
  direction unchanged and raises on an absent one, with a compatibility check that
  accepts every pairing or rejects every pairing.
\<close>

definition accepting_externals :: "string externals" where
  "accepting_externals =
     \<lparr>canonicalize_direction_code = (\<lambda>v f. case v of None \<Rightarrow> Inl TypeError | Some x \<Rightarrow> Inr x),
      check_pes = (\<lambda>fmaps pe_dir. Inr ()),
      nvol = (\<lambda>f. 0)\<rparr>"

definition rejecting_externals :: "string externals" where
  "rejecting_externals =
     \<lparr>canonicalize_direction_code = (\<lambda>v f. case v of None \<Rightarrow> Inl TypeError | Some x \<Rightarrow> Inr x),
      check_pes = (\<lambda>fmaps pe_dir. Inl ValueError),
      nvol = (\<lambda>f. 0)\<rparr>"

text \<open>
  A database with one BOLD run of subject 01 (phase-encoding direction \<open>i\<close>) and five
  field-map files: a \<open>phasediff\<close> without magnitude1/magnitude2, a \<open>fieldmap\<close> with
  its \<open>magnitude\<close>, and two \<open>epi\<close> files with directions \<open>j\<close> and \<open>j-\<close>.
\<close>

definition fieldmaps_example :: "string database" where
  "fieldmaps_example =
     \<lparr>tags = (\<lambda>f t. map_of
         [((''sub-01_bold.nii'', ''sub''), ''01''),
          ((''sub-01_phasediff.nii'', ''suffix''), ''phasediff''),
          ((''sub-01_dir-AP_epi.nii'', ''suffix''), ''epi''),
          ((''sub-01_dir-PA_epi.nii'', ''suffix''), ''epi''),
          ((''sub-01_fieldmap.nii'', ''suffix''), ''fieldmap''),
          ((''sub-01_magnitude.nii'', ''suffix''), ''magnitude'')] (f, t)),
      related = (\<lambda>f q.
         if f = ''sub-01_bold.nii'' \<and> q ''datatype'' = Some (Some ''fmap'')
            \<and> q ''sub'' = Some (Some ''01'')
         then Some [''sub-01_phasediff.nii'', ''sub-01_dir-PA_epi.nii'',
                    ''sub-01_magnitude.nii'', ''sub-01_dir-AP_epi.nii'',
                    ''sub-01_fieldmap.nii'']
         else None),
      stored = (\<lambda>f k. map_of
         [((''sub-01_bold.nii'', ''phase_encoding_direction''), ''i''),
          ((''sub-01_dir-AP_epi.nii'', ''phase_encoding_direction''), ''j''),
          ((''sub-01_dir-PA_epi.nii'', ''phase_encoding_direction''), ''j-'')] (f, k)),
      cached = (\<lambda>f k. None)\<rparr>"

text \<open>A database whose only field-map candidate carries no suffix tag.\<close>

definition unsuffixed_example :: "string database" where
  "unsuffixed_example =
     \<lparr>tags = (\<lambda>f t. map_of [((''sub-01_bold.nii'', ''sub''), ''01'')] (f, t)),
      related = (\<lambda>f q.
         if f = ''sub-01_bold.nii'' \<and> q ''datatype'' = Some (Some ''fmap'')
         then Some [''sub-01_scan.nii''] else None),
      stored = (\<lambda>f k. None),
      cached = (\<lambda>f k. None)\<rparr>"

text \<open>A database whose only field-map candidate is an \<open>epi\<close> file without direction.\<close>

definition undirected_example :: "string database" where
  "undirected_example =
     \<lparr>tags = (\<lambda>f t. map_of
         [((''sub-01_bold.nii'', ''sub''), ''01''),
          ((''sub-01_dir-AP_epi.nii'', ''suffix''), ''epi'')] (f, t)),
      related = (\<lambda>f q.
         if f = ''sub-01_bold.nii'' \<and> q ''datatype'' = Some (Some ''fmap'')
         then Some [''sub-01_dir-AP_epi.nii''] else None),
      stored = (\<lambda>f k. None),
      cached = (\<lambda>f k. None)\<rparr>"

text \<open>
  A database with two BOLD files of subject 01 that carry the same tags, and one T1w
  file; the first BOLD file has 120 volumes and the second 200. Three translators:
  one that gives every file the same canonical path, one whose \<open>put\<close> always raises
  ValueError, and one whose \<open>put\<close> raises ValueError for the first BOLD file only.
\<close>

definition bold_example :: "string database" where
  "bold_example =
     \<lparr>tags = (\<lambda>f t. map_of
         [((''scan1/sub-01_task-rest_bold.nii'', ''sub''), ''01''),
          ((''scan2/sub-01_task-rest_bold.nii'', ''sub''), ''01'')] (f, t)),
      related = (\<lambda>f q.
         if q ''datatype'' = Some (Some ''anat'') \<and> q ''sub'' = Some (Some ''01'')
         then Some [''sub-01_T1w.nii''] else None),
      stored = (\<lambda>f k. None),
      cached = (\<lambda>f k. None)\<rparr>"

definition volume_externals :: "string externals" where
  "volume_externals =
     \<lparr>canonicalize_direction_code = (\<lambda>v f. case v of None \<Rightarrow> Inl TypeError | Some x \<Rightarrow> Inr x),
      check_pes = (\<lambda>fmaps pe_dir. Inr ()),
      nvol = (\<lambda>f. if f = ''scan1/sub-01_task-rest_bold.nii'' then 120 else 200)\<rparr>"

definition constant_bids :: "(string, unit) bids_database" where
  "constant_bids =
     \<lparr>bids_new = (\<lambda>d. ()),
      bids_put = (\<lambda>b f. (None, ())),
      bids_to_bids = (\<lambda>b f. Inr (Some ''sub-01/func/sub-01_task-rest_bold.nii''))\<rparr>"



text \<open>A canonical name that is derived from the subject tag of a file.\<close>

definition subject_bids_name :: "'v database \<Rightarrow> string \<Rightarrow> string" where
  "subject_bids_name d file_path =
     (case tagval d file_path ''sub'' of None \<Rightarrow> [] | Some s \<Rightarrow> ''sub-'' @ s) @ ''_bold.nii''"

text \<open>
  Stand-ins for the external functions of the metadata steps that return their argument,
  for inputs on which the functions they stand for do the same: values that are strings,
  a key in lower case without underscore, and a value that is capitalised already.
\<close>

definition plain_ui :: "string ui_externals" where
  "plain_ui =
     \<lparr>humanize = (\<lambda>s. s), lower = (\<lambda>s. s), direction_code_str = (\<lambda>v f. v),
      slice_timing_str = (\<lambda>v. v), array2string = (\<lambda>v. v), format = (\<lambda>v. v)\<rparr>"

text \<open>
  Six files with a \<open>space\<close> value: \<open>MNI152NLin2009cAsym\<close> twice, \<open>MNI152NLin6Asym\<close>
  three times and \<open>Native\<close> once.
\<close>

definition spaces_example :: "string database" where
  "spaces_example =
     \<lparr>tags = (\<lambda>f t. None),
      related = (\<lambda>f q. None),
      stored = (\<lambda>f k. map_of
         [((''sub-01_map.nii'', ''space''), ''MNI152NLin6Asym''),
          ((''sub-02_map.nii'', ''space''), ''MNI152NLin2009cAsym''),
          ((''sub-03_map.nii'', ''space''), ''MNI152NLin6Asym''),
          ((''sub-04_map.nii'', ''space''), ''Native''),
          ((''sub-05_map.nii'', ''space''), ''MNI152NLin2009cAsym''),
          ((''sub-06_map.nii'', ''space''), ''MNI152NLin6Asym'')] (f, k)),
      cached = (\<lambda>f k. None)\<rparr>"

definition spaces_files :: "string list" where
  "spaces_files = [''sub-01_map.nii'', ''sub-02_map.nii'', ''sub-03_map.nii'',
                   ''sub-04_map.nii'', ''sub-05_map.nii'', ''sub-06_map.nii'']"

definition space_class :: step_class where
  "space_class = \<lparr>step_key = ''space'', step_unit = None, step_should_skip = False\<rparr>"

definition repetition_time_class :: step_class where
  "repetition_time_class =
     \<lparr>step_key = ''repetition_time'', step_unit = Some ''seconds'', step_should_skip = False\<rparr>"

section \<open>Properties\<close>

subsection \<open>Switch-with-select\<close>

text \<open>
  C10. Composing a SwitchWithSelect is defined exactly when its options list is
  non-empty: with the options omitted (\<open>None\<close>) or empty, \<open>compose\<close> fails with
  IndexError; with a first option \<open>(l, v)\<close> it succeeds and the dropdown's initial value
  is \<open>v\<close>, the value of the first option.
\<close>

theorem switch_with_select_first_option:
  "(switch_with_select_compose str_of (switch_with_select_init options) = Inl IndexError)
     = (options = None \<or> options = Some [])
   \<and> switch_with_select_compose str_of (switch_with_select_init (Some ((l, v) # rest)))
     = Inr \<lparr>select_options = (str_of l, v) # map (\<lambda>value. (str_of (fst value), snd value)) rest,
            select_value = v, allow_blank = False, select_id = ''input_switch_input_box''\<rparr>"
  by (auto simp add: switch_with_select_compose_def switch_with_select_init_def
      split: option.splits list.splits)

subsection \<open>Initial-volumes removal\<close>

text \<open>
  C3 (evaluation of the code). Confirming the initial-volumes modal with any entry, and
  switching automatic detection on or off, leave \<open>global_settings\<close> as it was: the
  callback only rewrites the displayed count and its border, the switch handler only
  rewrites a label and two visibilities. With \<open>dummy_scans\<close> unset (the sentinel) and
  the entry \<open>"5"\<close> confirmed, the widget shows \<open>"5"\<close> while \<open>dummy_scans\<close> is still the
  sentinel and not \<open>5\<close>.
\<close>

theorem dummy_scans_not_written:
  "global_settings (update_remove_initial_volumes_value (on_ok_button_pressed v) s)
     = global_settings s
   \<and> global_settings (on_via_algorithm_switch_changed b s) = global_settings s
   \<and> remove_volumes_value
        (update_remove_initial_volumes_value (on_ok_button_pressed ''5'')
           (preprocessing_mounted [''dummy_scans'' \<mapsto> NoValue])) = ''5''
   \<and> global_settings
        (update_remove_initial_volumes_value (on_ok_button_pressed ''5'')
           (preprocessing_mounted [''dummy_scans'' \<mapsto> NoValue])) ''dummy_scans'' = Some NoValue"
  by (simp add: update_remove_initial_volumes_value_def on_ok_button_pressed_def
      on_via_algorithm_switch_changed_def preprocessing_mounted_def)

subsection \<open>Compact file-browser control\<close>

text \<open>
  C9 (evaluation of the code). When the directory browser is cancelled, its payload
  \<open>None\<close> reaches \<open>update_input\<close>, passes the guard and is written as the text
  \<open>"None"\<close>: on a freshly composed control for \<open>"working directory"\<close> the label
  becomes \<open>"working directory: None"\<close>, the selected path becomes \<open>"None"\<close> and one
  \<open>Changed\<close> message is posted. Only the empty string leaves the control unchanged.
\<close>

theorem cancel_overwrites_selected_path:
  "update_input cancel_window (file_browser_composed ''working directory'')
     = \<lparr>path_to = ''working directory'', label_text = ''working directory: None'',
        label_value = Some ''working directory: None'', selected_path = ''None'',
        posted = [Changed ''None'']\<rparr>
   \<and> update_input key_escape (file_browser_composed ''working directory'')
     = update_input cancel_window (file_browser_composed ''working directory'')
   \<and> update_input (confirm_window []) s = s"
  by (simp add: update_input_def cancel_window_def key_escape_def confirm_window_def
      file_browser_composed_def set_selected_path_def py_str_def)

subsection \<open>collect\_events\<close>

lemma condition_file_of_cases:
  "condition_file_of d c = (if lacks_condition d c then Inl AssertionError else Inr (paired_as d c))"
  by (auto simp: condition_file_of_def lacks_condition_def paired_as_def split: option.splits)

lemma collect_events_loop_eq:
  "collect_events_loop d subj cs acc =
     (if list_ex (lacks_condition d) (filter (same_subject d subj) cs) then Inl AssertionError
      else Inr (acc @ map (paired_as d) (filter (same_subject d subj) cs)))"
proof (induction cs arbitrary: acc)
  case Nil
  then show ?case by simp
next
  case (Cons c cs)
  show ?case
  proof (cases "same_subject d subj c")
    case True
    then have "\<not> (tagval d c ''sub'' \<noteq> None \<and> tagval d c ''sub'' \<noteq> subj)"
      by (auto simp: same_subject_def)
    then show ?thesis using True Cons.IH
      by (simp add: condition_file_of_cases Let_def)
  next
    case False
    then have "tagval d c ''sub'' \<noteq> None \<and> tagval d c ''sub'' \<noteq> subj"
      by (auto simp: same_subject_def)
    then show ?thesis using False Cons.IH
      by (simp add: Let_def)
  qed
qed

lemma sorted_distinct_filter_sort_remdups:
  "sorted (filter P (sort (remdups xs))) \<and> distinct (filter P (sort (remdups xs)))"
  using sorted_filter[of id "sort (remdups xs)" P] by simp

text \<open>
  C6. For every database and source file, \<open>collect_events\<close> either fails the
  assertion on a surviving \<open>.txt\<close> candidate without condition tag, or returns
  no-value exactly when no candidate survives, or returns the surviving candidates:
  de-duplicated and sorted, none of them declaring a subject other than the source
  file's, each \<open>.txt\<close> candidate paired with its condition tag and every other one
  bare.
\<close>

theorem collect_events_scoped:
  "case collect_events d source_file of
     Inl e \<Rightarrow>
       e = AssertionError
       \<and> list_ex (\<lambda>c. tagval d c ''extension'' = Some ''.txt'' \<and> tagval d c ''condition'' = None)
           (surviving_events d source_file)
   | Inr None \<Rightarrow> surviving_events d source_file = []
   | Inr (Some condition_files) \<Rightarrow>
       condition_files \<noteq> []
       \<and> map condition_path condition_files = surviving_events d source_file
       \<and> sorted (map condition_path condition_files)
       \<and> distinct (map condition_path condition_files)
       \<and> (\<forall>cf \<in> set condition_files.
            (tagval d (condition_path cf) ''sub'' = None
             \<or> tagval d (condition_path cf) ''sub'' = tagval d source_file ''sub'')
            \<and> (case cf of
                 Paired p c \<Rightarrow> tagval d p ''extension'' = Some ''.txt''
                               \<and> tagval d p ''condition'' = Some c
               | Bare p \<Rightarrow> tagval d p ''extension'' \<noteq> Some ''.txt''))"
proof -
  define q where "q = [''task'' \<mapsto> tagval d source_file ''task'',
                   ''datatype'' \<mapsto> Some ''func'', ''suffix'' \<mapsto> Some ''events'']"
  define subj where "subj = tagval d source_file ''sub''"
  define cands where "cands = (case associations d source_file q of None \<Rightarrow> [] | Some cs \<Rightarrow> cs)"
  define surv where "surv = filter (same_subject d subj) (sort (remdups cands))"
  have surv_eq: "surviving_events d source_file = surv"
    by (simp add: surviving_events_def surv_def cands_def q_def subj_def same_subject_def[abs_def])
  have sd: "sorted surv \<and> distinct surv"
    unfolding surv_def by (rule sorted_distinct_filter_sort_remdups)
  have path: "map (condition_path \<circ> paired_as d) xs = xs" for xs
    by (induction xs) (simp_all add: paired_as_def)
  have all_same: "\<forall>c \<in> set surv. same_subject d subj c"
    by (simp add: surv_def)
  have ce: "collect_events d source_file =
      (if list_ex (lacks_condition d) surv then Inl AssertionError
       else if surv = [] then Inr None else Inr (Some (map (paired_as d) surv)))"
  proof (cases "associations d source_file q")
    case None
    then show ?thesis
      by (simp add: collect_events_def q_def[symmetric] surv_def cands_def)
  next
    case (Some cs)
    then have c: "cands = cs" by (simp add: cands_def)
    show ?thesis
    proof (cases "cs = []")
      case True
      then show ?thesis using Some c
        by (simp add: collect_events_def q_def[symmetric] surv_def)
    next
      case False
      have surv': "surv = filter (same_subject d subj) (sort (remdups cs))"
        using c by (simp add: surv_def)
      from False show ?thesis using Some
        by (simp add: collect_events_def q_def[symmetric] subj_def[symmetric]
            collect_events_loop_eq surv')
    qed
  qed
  show ?thesis
  proof (cases "list_ex (lacks_condition d) surv")
    case True
    then show ?thesis using ce surv_eq
      by (simp add: lacks_condition_def[abs_def])
  next
    case no_lack: False
    show ?thesis
    proof (cases "surv = []")
      case True
      then show ?thesis using ce surv_eq no_lack by simp
    next
      case False
      have each: "\<forall>cf \<in> set (map (paired_as d) surv).
            (tagval d (condition_path cf) ''sub'' = None
             \<or> tagval d (condition_path cf) ''sub'' = tagval d source_file ''sub'')
            \<and> (case cf of
                 Paired p c \<Rightarrow> tagval d p ''extension'' = Some ''.txt''
                               \<and> tagval d p ''condition'' = Some c
               | Bare p \<Rightarrow> tagval d p ''extension'' \<noteq> Some ''.txt'')"
      proof
        fix cf assume "cf \<in> set (map (paired_as d) surv)"
        then obtain c where c: "c \<in> set surv" "cf = paired_as d c" by auto
        from c(1) all_same have k: "same_subject d subj c" by blast
        from c(1) no_lack have nl: "\<not> lacks_condition d c"
          by (auto simp: list_ex_iff)
        show "(tagval d (condition_path cf) ''sub'' = None
             \<or> tagval d (condition_path cf) ''sub'' = tagval d source_file ''sub'')
            \<and> (case cf of
                 Paired p c \<Rightarrow> tagval d p ''extension'' = Some ''.txt''
                               \<and> tagval d p ''condition'' = Some c
               | Bare p \<Rightarrow> tagval d p ''extension'' \<noteq> Some ''.txt'')"
          using k nl c(2)
          by (auto simp: same_subject_def subj_def lacks_condition_def paired_as_def)
      qed
      show ?thesis using ce surv_eq no_lack False sd each
        by (simp add: path)
    qed
  qed
qed

theorem collect_events_scoped_witness:
  "collect_events events_example ''sub-01_task-rest_bold.nii''
     = Inr (Some [Bare ''sub-01_task-rest_events.tsv'', Paired ''task-rest_faces.txt'' ''faces''])
   \<and> surviving_events events_example ''sub-01_task-rest_bold.nii''
     = [''sub-01_task-rest_events.tsv'', ''task-rest_faces.txt'']
   \<and> tagval events_example ''sub-02_task-rest_events.tsv'' ''sub'' = Some ''02''"
proof -
  have run: "collect_events events_example ''sub-01_task-rest_bold.nii''
     = Inr (Some [Bare ''sub-01_task-rest_events.tsv'', Paired ''task-rest_faces.txt'' ''faces''])"
    by (simp add: collect_events_def events_example_def associations_def tagval_def
        condition_file_of_def)
  have t: "tagval events_example ''sub-02_task-rest_events.tsv'' ''sub'' = Some ''02''"
    by (simp add: events_example_def tagval_def)
  from collect_events_scoped [of events_example "''sub-01_task-rest_bold.nii''"] run t
  show ?thesis by simp
qed

subsection \<open>collect\_fieldmaps\<close>

lemma has_magnitude_iff:
  "has_magnitude d magnitude candidates
     = (\<exists>m \<in> set candidates. \<exists>s. tagval d m ''suffix'' = Some s \<and> s \<in> set magnitude)"
  by (auto simp: has_magnitude_def list_ex_iff split: option.splits)

lemma is_incomplete_iff:
  "is_incomplete d candidates c = (\<not> magnitude_complete d candidates c)"
proof (cases "tagval d c ''suffix''")
  case None
  then show ?thesis by (simp add: is_incomplete_def magnitude_complete_def)
next
  case (Some s)
  consider "s = ''phase1''" | "s = ''phase2''" | "s = ''phasediff''" | "s = ''fieldmap''"
    | "s \<notin> {''phase1'', ''phase2'', ''phasediff'', ''fieldmap''}" by blast
  then show ?thesis
  proof cases
    case 5
    then have "magnitude_map s = None" by (simp add: magnitude_map_def)
    then show ?thesis using Some 5
      by (simp add: is_incomplete_def magnitude_complete_def)
  qed (auto simp add: Some is_incomplete_def magnitude_complete_def magnitude_map_def
        has_magnitude_iff)
qed

lemma filter_phase_maps_eq:
  "filter_phase_maps d candidates cs incomplete =
     (if list_ex (\<lambda>c. tagval d c ''suffix'' = None) cs then Inl AssertionError
      else Inr (incomplete @ filter (is_incomplete d candidates) cs))"
proof (induction cs arbitrary: incomplete)
  case Nil
  then show ?case by simp
next
  case (Cons c cs)
  show ?case
  proof (cases "tagval d c ''suffix''")
    case None
    then show ?thesis by simp
  next
    case (Some suffix)
    show ?thesis
    proof (cases "magnitude_map suffix")
      case None
      then have "\<not> is_incomplete d candidates c"
        using Some by (simp add: is_incomplete_def)
      then show ?thesis using Some None Cons.IH by simp
    next
      case (Some magnitude)
      then have "is_incomplete d candidates c = (\<not> has_magnitude d magnitude candidates)"
        using \<open>tagval d c ''suffix'' = Some suffix\<close> by (simp add: is_incomplete_def)
      then show ?thesis
        using \<open>tagval d c ''suffix'' = Some suffix\<close> Some Cons.IH by simp
    qed
  qed
qed

lemma same_files_refl: "same_files d d"
  by (simp add: same_files_def)

lemma same_files_trans: "same_files d d' \<Longrightarrow> same_files d' d'' \<Longrightarrow> same_files d d''"
  by (simp add: same_files_def)

lemma same_files_fillmetadata: "same_files d (fillmetadata key fs d)"
  by (auto simp: same_files_def fillmetadata_def read_pe_dir_def fun_eq_iff split: option.splits)

lemma same_files_tagval: "same_files d d' \<Longrightarrow> tagval d' = tagval d"
  by (simp add: same_files_def tagval_def fun_eq_iff)

lemma collect_pe_dir_eq:
  "collect_pe_dir ext c w =
     (canonicalize_direction_code ext (read_pe_dir (db w) c) c,
      w\<lparr>db := fillmetadata ''phase_encoding_direction'' [c] (db w)\<rparr>)"
  by (simp add: collect_pe_dir_def Let_def metadata_def fillmetadata_def read_pe_dir_def
      split: option.splits)

lemma filter_pepolar_result:
  "filter_pepolar ext cs acc w = (r, w') \<Longrightarrow>
     same_files (db w) (db w') \<and> logged w' = logged w
     \<and> (\<forall>acc'. r = Inr acc' \<longrightarrow>
          map fst acc' = map fst acc @ filter (\<lambda>c. tagval (db w) c ''suffix'' = Some ''epi'') cs)"
proof (induction cs arbitrary: acc w)
  case Nil
  then show ?case by (auto simp: same_files_refl)
next
  case (Cons c cs)
  show ?case
  proof (cases "tagval (db w) c ''suffix''")
    case None
    with Cons.prems show ?thesis by (auto simp: same_files_refl)
  next
    case (Some suffix)
    show ?thesis
    proof (cases "suffix = ''epi''")
      case False
      with Some Cons.prems have "filter_pepolar ext cs acc w = (r, w')" by simp
      from Cons.IH [OF this] show ?thesis using Some False by simp
    next
      case True
      define w1 where "w1 = w\<lparr>db := fillmetadata ''phase_encoding_direction'' [c] (db w)\<rparr>"
      have sf: "same_files (db w) (db w1)" and lg: "logged w1 = logged w"
        by (simp_all add: w1_def same_files_fillmetadata)
      show ?thesis
      proof (cases "canonicalize_direction_code ext (read_pe_dir (db w) c) c")
        case (Inl e)
        with Some True Cons.prems have "r = Inl e" "w' = w1"
          by (simp_all add: collect_pe_dir_eq w1_def)
        then show ?thesis using sf lg by simp
      next
        case (Inr pe_dir)
        with Some True Cons.prems
        have "filter_pepolar ext cs (acc @ [(c, pe_dir)]) w1 = (r, w')"
          by (simp add: collect_pe_dir_eq w1_def)
        from Cons.IH [OF this] show ?thesis
          using Some True sf lg same_files_tagval [OF sf]
          by (auto intro: same_files_trans)
      qed
    qed
  qed
qed

lemma read_pe_dir_eq:
  "metadata (fillmetadata ''phase_encoding_direction'' [c] d) c ''phase_encoding_direction''
     = read_pe_dir d c"
  by (simp add: metadata_def fillmetadata_def read_pe_dir_def split: option.splits)

lemma drop_epi_fmaps_fst:
  "fst (drop_epi_fmaps silent epi_fmaps candidates w)
     = filter (\<lambda>c. c \<notin> fst ` set epi_fmaps) candidates"
  by (simp add: drop_epi_fmaps_def Let_def)

lemma check_epi_fmaps_result:
  assumes "check_epi_fmaps ext bold silent epi_fmaps candidates w = (Inr candidates2, w')"
  shows "candidates2 = candidates
         \<or> candidates2 = filter (\<lambda>c. c \<notin> fst ` set epi_fmaps) candidates"
  using assms
  by (auto simp: check_epi_fmaps_def collect_pe_dir_eq drop_epi_fmaps_def Let_def
      split: sum.splits if_splits)

lemma magnitude_complete_remdups:
  "magnitude_complete d (remdups found) = magnitude_complete d found"
  by (simp add: magnitude_complete_def fun_eq_iff)

lemma remove_incomplete_fst:
  "fst (remove_incomplete silent incomplete candidates w)
     = filter (\<lambda>c. c \<notin> set incomplete) candidates"
  by (cases incomplete) (simp_all add: remove_incomplete_def)

lemma remove_incomplete_db:
  "db (snd (remove_incomplete silent incomplete candidates w)) = db w"
  by (simp add: remove_incomplete_def logger_def)

lemma collect_fieldmaps_stages:
  assumes q: "associations (db w) bold (fieldmap_filters (db w) bold) = Some found"
    and r: "collect_fieldmaps ext bold silent w = (Inr fmaps, w')"
  shows "\<not> list_ex (\<lambda>c. tagval (db w) c ''suffix'' = None) (remdups found)
     \<and> (set fmaps = {c \<in> set found. \<not> is_incomplete (db w) (remdups found) c}
        \<or> set fmaps = {c \<in> set found. \<not> is_incomplete (db w) (remdups found) c
                          \<and> tagval (db w) c ''suffix'' \<noteq> Some ''epi''})
     \<and> sorted fmaps \<and> distinct fmaps"
proof -
  define cands where "cands = remdups found"
  define inc where "inc = filter (is_incomplete (db w) cands) cands"
  have nn: "\<not> list_ex (\<lambda>c. tagval (db w) c ''suffix'' = None) cands"
    using r q by (auto simp: collect_fieldmaps_def cands_def filter_phase_maps_eq split: if_splits)
  then have fp: "filter_phase_maps (db w) cands cands [] = Inr inc"
    by (simp add: filter_phase_maps_eq inc_def)
  obtain cands1 w1 where ri: "remove_incomplete silent inc cands w = (cands1, w1)"
    by (cases "remove_incomplete silent inc cands w")
  have c1: "cands1 = filter (\<lambda>c. \<not> is_incomplete (db w) cands c) cands"
    using remove_incomplete_fst [of silent inc cands w] ri
    by (auto simp: inc_def intro: filter_cong)
  have d1: "db w1 = db w"
    using remove_incomplete_db [of silent inc cands w] ri by simp
  obtain r2 w2 where fpp: "filter_pepolar ext cands1 [] w1 = (r2, w2)"
    by (cases "filter_pepolar ext cands1 [] w1")
  from r q fp ri fpp obtain epi_fmaps where r2: "r2 = Inr epi_fmaps"
    by (cases r2) (auto simp: collect_fieldmaps_def cands_def [symmetric])
  from filter_pepolar_result [OF fpp] r2 d1
  have epi: "map fst epi_fmaps = filter (\<lambda>c. tagval (db w) c ''suffix'' = Some ''epi'') cands1"
    by simp
  have dc: "distinct cands1" by (simp add: c1 cands_def)
  have "\<exists>cands2. fmaps = sort cands2
      \<and> (cands2 = cands1 \<or> cands2 = filter (\<lambda>c. c \<notin> fst ` set epi_fmaps) cands1)"
  proof (cases "epi_fmaps = []")
    case True
    with r q fp ri fpp r2 show ?thesis
      by (auto simp: collect_fieldmaps_def cands_def [symmetric])
  next
    case False
    obtain r3 w3 where ce: "check_epi_fmaps ext bold silent epi_fmaps cands1 w2 = (r3, w3)"
      by (cases "check_epi_fmaps ext bold silent epi_fmaps cands1 w2")
    from r q fp ri fpp r2 False ce obtain cands2 where r3: "r3 = Inr cands2" "fmaps = sort cands2"
      by (cases r3) (auto simp: collect_fieldmaps_def cands_def [symmetric])
    from check_epi_fmaps_result [OF ce [unfolded r3(1)]] r3(2) show ?thesis by blast
  qed
  then obtain cands2 where f: "fmaps = sort cands2"
    and alt: "cands2 = cands1 \<or> cands2 = filter (\<lambda>c. c \<notin> fst ` set epi_fmaps) cands1"
    by blast
  have fe: "fst ` set epi_fmaps = {c \<in> set cands1. tagval (db w) c ''suffix'' = Some ''epi''}"
    using epi by (metis set_filter set_map)
  have s1: "set cands1 = {c \<in> set found. \<not> is_incomplete (db w) cands c}"
    by (auto simp: c1 cands_def)
  from alt have "set cands2 = {c \<in> set found. \<not> is_incomplete (db w) cands c}
        \<or> set cands2 = {c \<in> set found. \<not> is_incomplete (db w) cands c
                          \<and> tagval (db w) c ''suffix'' \<noteq> Some ''epi''}"
  proof
    assume "cands2 = cands1"
    then show ?thesis using s1 by simp
  next
    assume "cands2 = filter (\<lambda>c. c \<notin> fst ` set epi_fmaps) cands1"
    then have "set cands2 = {c \<in> set cands1. tagval (db w) c ''suffix'' \<noteq> Some ''epi''}"
      using fe by auto
    then show ?thesis using s1 by auto
  qed
  moreover have "distinct cands2" using alt dc by auto
  ultimately show ?thesis using nn f by (simp add: cands_def)
qed

text \<open>
  C5. Whenever \<open>collect_fieldmaps\<close> returns a list for the candidates \<open>found\<close>, its
  first loop yields exactly the candidates that are not magnitude-complete (a
  \<open>phase1\<close>, \<open>phase2\<close> or \<open>phasediff\<close> file with no \<open>magnitude1\<close>/\<open>magnitude2\<close>
  candidate, a \<open>fieldmap\<close> file with no \<open>magnitude\<close> candidate); exactly the other
  candidates survive the pass; none of the excluded files is in the returned list, and
  every surviving candidate that is not an \<open>epi\<close> file is in it.
\<close>

theorem fieldmaps_magnitude_completeness:
  assumes "associations (db w) bold_file_path (fieldmap_filters (db w) bold_file_path) = Some found"
    and "collect_fieldmaps ext bold_file_path silent w = (Inr fmaps, w')"
  shows "set fmaps \<subseteq> {c \<in> set found. magnitude_complete (db w) found c}
     \<and> {c \<in> set found. magnitude_complete (db w) found c
                        \<and> tagval (db w) c ''suffix'' \<noteq> Some ''epi''} \<subseteq> set fmaps
     \<and> (\<exists>incomplete.
           filter_phase_maps (db w) (remdups found) (remdups found) [] = Inr incomplete
           \<and> set incomplete = {c \<in> set found. \<not> magnitude_complete (db w) found c}
           \<and> set (fst (remove_incomplete silent incomplete (remdups found) w))
               = {c \<in> set found. magnitude_complete (db w) found c})"
proof -
  have ii: "is_incomplete (db w) (remdups found) c = (\<not> magnitude_complete (db w) found c)" for c
    by (simp add: is_incomplete_iff magnitude_complete_remdups)
  from collect_fieldmaps_stages [OF assms]
  have nn: "\<not> list_ex (\<lambda>c. tagval (db w) c ''suffix'' = None) (remdups found)"
    and alt: "set fmaps = {c \<in> set found. magnitude_complete (db w) found c}
        \<or> set fmaps = {c \<in> set found. magnitude_complete (db w) found c
                          \<and> tagval (db w) c ''suffix'' \<noteq> Some ''epi''}"
    by (simp_all add: ii)
  have fp: "filter_phase_maps (db w) (remdups found) (remdups found) []
      = Inr (filter (is_incomplete (db w) (remdups found)) (remdups found))"
    using nn by (simp add: filter_phase_maps_eq)
  have "set (filter (is_incomplete (db w) (remdups found)) (remdups found))
      = {c \<in> set found. \<not> magnitude_complete (db w) found c}"
    by (auto simp: ii)
  moreover have "set (fst (remove_incomplete silent
        (filter (is_incomplete (db w) (remdups found)) (remdups found)) (remdups found) w))
      = {c \<in> set found. magnitude_complete (db w) found c}"
    by (auto simp: remove_incomplete_fst ii)
  ultimately show ?thesis using fp alt by auto
qed


theorem fieldmaps_magnitude_completeness_witness:
  "fst (collect_fieldmaps accepting_externals ''sub-01_bold.nii'' False
          \<lparr>db = fieldmaps_example, logged = []\<rparr>)
     = Inr [''sub-01_dir-AP_epi.nii'', ''sub-01_dir-PA_epi.nii'',
            ''sub-01_fieldmap.nii'', ''sub-01_magnitude.nii'']
   \<and> magnitude_complete fieldmaps_example
        [''sub-01_phasediff.nii'', ''sub-01_dir-PA_epi.nii'', ''sub-01_magnitude.nii'',
         ''sub-01_dir-AP_epi.nii'', ''sub-01_fieldmap.nii''] ''sub-01_fieldmap.nii''
   \<and> \<not> magnitude_complete fieldmaps_example
        [''sub-01_phasediff.nii'', ''sub-01_dir-PA_epi.nii'', ''sub-01_magnitude.nii'',
         ''sub-01_dir-AP_epi.nii'', ''sub-01_fieldmap.nii''] ''sub-01_phasediff.nii''"
proof -
  let ?w = "\<lparr>db = fieldmaps_example, logged = []\<rparr>"
  let ?found = "[''sub-01_phasediff.nii'', ''sub-01_dir-PA_epi.nii'', ''sub-01_magnitude.nii'',
         ''sub-01_dir-AP_epi.nii'', ''sub-01_fieldmap.nii'']"
  let ?fmaps = "[''sub-01_dir-AP_epi.nii'', ''sub-01_dir-PA_epi.nii'',
            ''sub-01_fieldmap.nii'', ''sub-01_magnitude.nii'']"
  have run: "fst (collect_fieldmaps accepting_externals ''sub-01_bold.nii'' False ?w) = Inr ?fmaps"
    by (simp add: collect_fieldmaps_def accepting_externals_def fieldmaps_example_def
      associations_def tagval_def fieldmap_filters_def magnitude_map_def has_magnitude_def
      remove_incomplete_def logger_def collect_pe_dir_def fillmetadata_def metadata_def
      check_epi_fmaps_def drop_epi_fmaps_def Let_def)
  then have run': "collect_fieldmaps accepting_externals ''sub-01_bold.nii'' False ?w
      = (Inr ?fmaps, snd (collect_fieldmaps accepting_externals ''sub-01_bold.nii'' False ?w))"
    by (metis prod.collapse)
  have q: "associations (db ?w) ''sub-01_bold.nii'' (fieldmap_filters (db ?w) ''sub-01_bold.nii'')
      = Some ?found"
    by (simp add: fieldmaps_example_def associations_def tagval_def fieldmap_filters_def Let_def)
  have "set ?fmaps \<subseteq> {c \<in> set ?found. magnitude_complete (db ?w) ?found c}"
    using fieldmaps_magnitude_completeness [OF q run'] by blast
  then have "magnitude_complete fieldmaps_example ?found ''sub-01_fieldmap.nii''"
    by simp
  moreover have "\<not> magnitude_complete fieldmaps_example ?found ''sub-01_phasediff.nii''"
    by (simp add: magnitude_complete_def fieldmaps_example_def tagval_def)
  ultimately show ?thesis using run by simp
qed

lemma filled_pe_dir_eq: "filled_pe_dir d c = read_pe_dir d c"
  by (simp add: filled_pe_dir_def read_pe_dir_eq)

lemma same_files_pe:
  assumes "same_files d d'"
  shows "pe_ok ext d' = pe_ok ext d" and "pe_dir_of ext d' = pe_dir_of ext d"
  using assms by (simp_all add: same_files_def pe_ok_def pe_dir_of_def fun_eq_iff)

lemma filter_pepolar_exact:
  assumes "\<forall>c \<in> set cs. tagval (db w) c ''suffix'' \<noteq> None"
  shows "(list_all (pe_ok ext (db w)) (filter (\<lambda>c. tagval (db w) c ''suffix'' = Some ''epi'') cs)
           \<longrightarrow> (\<exists>w'. filter_pepolar ext cs acc w
                  = (Inr (acc @ map (\<lambda>c. (c, pe_dir_of ext (db w) c))
                              (filter (\<lambda>c. tagval (db w) c ''suffix'' = Some ''epi'') cs)), w')
                \<and> same_files (db w) (db w')))
       \<and> (\<not> list_all (pe_ok ext (db w)) (filter (\<lambda>c. tagval (db w) c ''suffix'' = Some ''epi'') cs)
           \<longrightarrow> (\<exists>e w'. filter_pepolar ext cs acc w = (Inl e, w')))"
  using assms
proof (induction cs arbitrary: acc w)
  case Nil
  then show ?case by (simp add: same_files_refl)
next
  case (Cons c cs)
  from Cons.prems obtain suffix where s: "tagval (db w) c ''suffix'' = Some suffix" by auto
  from Cons.prems have rest: "\<forall>c \<in> set cs. tagval (db w) c ''suffix'' \<noteq> None" by simp
  show ?case
  proof (cases "suffix = ''epi''")
    case False
    with s Cons.IH [OF rest, of acc] show ?thesis by simp
  next
    case True
    define w1 where "w1 = w\<lparr>db := fillmetadata ''phase_encoding_direction'' [c] (db w)\<rparr>"
    have sf: "same_files (db w) (db w1)"
      by (simp add: w1_def same_files_fillmetadata)
    have tv: "tagval (db w1) = tagval (db w)" by (rule same_files_tagval [OF sf])
    note pe = same_files_pe [OF sf, of ext]
    show ?thesis
    proof (cases "canonicalize_direction_code ext (read_pe_dir (db w) c) c")
      case (Inl e)
      then have "\<not> pe_ok ext (db w) c" by (simp add: pe_ok_def)
      moreover have "filter_pepolar ext (c # cs) acc w = (Inl e, w1)"
        using s True Inl by (simp add: collect_pe_dir_eq w1_def)
      ultimately show ?thesis using s True by simp
    next
      case (Inr p)
      then have ok: "pe_ok ext (db w) c" and pd: "pe_dir_of ext (db w) c = p"
        by (simp_all add: pe_ok_def pe_dir_of_def)
      have step: "filter_pepolar ext (c # cs) acc w = filter_pepolar ext cs (acc @ [(c, p)]) w1"
        using s True Inr by (simp add: collect_pe_dir_eq w1_def)
      have rest1: "\<forall>c \<in> set cs. tagval (db w1) c ''suffix'' \<noteq> None"
        using rest by (simp add: tv)
      from Cons.IH [OF rest1, of "acc @ [(c, p)]"]
      show ?thesis
        unfolding step tv pe using s True ok pd sf
        by (auto intro: same_files_trans)
    qed
  qed
qed

lemma check_epi_fmaps_cases:
  "(\<exists>candidates2 w'. check_epi_fmaps ext bold silent epi_fmaps candidates w = (Inr candidates2, w'))
     = (case canonicalize_direction_code ext (read_pe_dir (db w) bold) bold of
          Inl e \<Rightarrow> e = ValueError
        | Inr pe_dir \<Rightarrow>
            (case check_pes ext epi_fmaps pe_dir of Inl e \<Rightarrow> e = ValueError | Inr u \<Rightarrow> True))"
  by (auto simp: check_epi_fmaps_def collect_pe_dir_eq drop_epi_fmaps_def Let_def
      split: sum.splits)

lemma check_epi_fmaps_total_result:
  "\<exists>r w'. check_epi_fmaps ext bold silent epi_fmaps candidates w = (r, w')"
  by (metis surj_pair)

lemma epi_not_incomplete:
  "tagval d c ''suffix'' = Some ''epi'' \<Longrightarrow> \<not> is_incomplete d candidates c"
  by (simp add: is_incomplete_def magnitude_map_def)

lemma epi_fmaps_of_eq:
  "epi_fmaps_of ext d found = map (\<lambda>c. (c, pe_dir_of ext d c)) (epi_candidates d found)"
  by (simp add: epi_fmaps_of_def pe_dir_of_def filled_pe_dir_eq)

text \<open>
  C8 (as amended). Whatever \<open>silent\<close> is, \<open>collect_fieldmaps\<close> returns a sorted list
  of distinct paths without raising exactly when the query finds nothing, or every
  candidate carries a suffix tag, the phase-encoding direction of every \<open>epi\<close>
  candidate canonicalizes, and, if there is an \<open>epi\<close> candidate, neither the
  canonicalization of the BOLD file's direction nor \<open>check_pes\<close> on the collected
  \<open>epi\<close> field maps raises anything but ValueError. In every other case an exception
  leaves the function.
\<close>

theorem collect_fieldmaps_returns:
  "(fieldmaps_return ext bold_file_path (db w) \<longrightarrow>
      (\<exists>fmaps w'. collect_fieldmaps ext bold_file_path silent w = (Inr fmaps, w')
         \<and> sorted fmaps \<and> distinct fmaps))
   \<and> (\<not> fieldmaps_return ext bold_file_path (db w) \<longrightarrow>
      (\<exists>e w'. collect_fieldmaps ext bold_file_path silent w = (Inl e, w')))"
proof (cases "associations (db w) bold_file_path (fieldmap_filters (db w) bold_file_path)")
  case None
  then show ?thesis by (simp add: collect_fieldmaps_def fieldmaps_return_def)
next
  case (Some found)
  define cands where "cands = remdups found"
  define inc where "inc = filter (is_incomplete (db w) cands) cands"
  define epis where "epis = epi_candidates (db w) found"
  let ?sfx = "list_all (\<lambda>c. tagval (db w) c ''suffix'' \<noteq> None) found"
  let ?caught = "case canonicalize_direction_code ext (read_pe_dir (db w) bold_file_path)
                     bold_file_path of
                Inl e \<Rightarrow> e = ValueError
              | Inr pe_dir \<Rightarrow>
                  (case check_pes ext (epi_fmaps_of ext (db w) found) pe_dir of
                     Inl e \<Rightarrow> e = ValueError | Inr u \<Rightarrow> True)"
  have fr: "fieldmaps_return ext bold_file_path (db w)
      = (?sfx \<and> list_all (pe_ok ext (db w)) epis \<and> (epis = [] \<or> ?caught))"
    using Some
    by (simp add: fieldmaps_return_def epis_def pe_ok_def [abs_def] filled_pe_dir_eq)
  have sorted_if: "sorted fmaps \<and> distinct fmaps"
    if "collect_fieldmaps ext bold_file_path silent w = (Inr fmaps, w')" for fmaps w'
    using collect_fieldmaps_stages [OF Some that] by simp
  show ?thesis
  proof (cases ?sfx)
    case False
    then have "list_ex (\<lambda>c. tagval (db w) c ''suffix'' = None) cands"
      by (auto simp: list_all_iff list_ex_iff cands_def)
    then have "collect_fieldmaps ext bold_file_path silent w = (Inl AssertionError, w)"
      using Some by (simp add: collect_fieldmaps_def cands_def [symmetric] filter_phase_maps_eq)
    with False fr show ?thesis by simp
  next
    case True
    then have sfx: "\<forall>c \<in> set cands. tagval (db w) c ''suffix'' \<noteq> None"
      by (simp add: list_all_iff cands_def)
    then have "\<not> list_ex (\<lambda>c. tagval (db w) c ''suffix'' = None) cands"
      by (simp add: list_ex_iff)
    then have fp: "filter_phase_maps (db w) cands cands [] = Inr inc"
      by (simp add: filter_phase_maps_eq inc_def)
    obtain cands1 w1 where ri: "remove_incomplete silent inc cands w = (cands1, w1)"
      by (cases "remove_incomplete silent inc cands w")
    have c1: "cands1 = filter (\<lambda>c. c \<notin> set inc) cands"
      using remove_incomplete_fst [of silent inc cands w] ri by simp
    have d1: "db w1 = db w"
      using remove_incomplete_db [of silent inc cands w] ri by simp
    have e1: "filter (\<lambda>c. tagval (db w) c ''suffix'' = Some ''epi'') cands1 = epis"
      unfolding c1 epis_def epi_candidates_def cands_def [symmetric]
      by (auto simp: inc_def epi_not_incomplete intro: filter_cong)
    have sfx1: "\<forall>c \<in> set cands1. tagval (db w1) c ''suffix'' \<noteq> None"
      using sfx by (simp add: c1 d1)
    note fpe = filter_pepolar_exact [OF sfx1, of ext "[]", unfolded d1 e1]
    have unfold: "collect_fieldmaps ext bold_file_path silent w =
        (case filter_pepolar ext cands1 [] w1 of
           (Inl e, w2) \<Rightarrow> (Inl e, w2)
         | (Inr epi_fmaps, w2) \<Rightarrow>
             if length epi_fmaps > 0 then
               (case check_epi_fmaps ext bold_file_path silent epi_fmaps cands1 w2 of
                  (Inl e, w3) \<Rightarrow> (Inl e, w3)
                | (Inr candidates2, w3) \<Rightarrow> (Inr (sort candidates2), w3))
             else (Inr (sort cands1), w2))"
      using Some fp ri by (simp add: collect_fieldmaps_def cands_def [symmetric])
    show ?thesis
    proof (cases "list_all (pe_ok ext (db w)) epis")
      case False
      with fpe obtain e w2 where "filter_pepolar ext cands1 [] w1 = (Inl e, w2)" by blast
      then have "collect_fieldmaps ext bold_file_path silent w = (Inl e, w2)"
        by (simp add: unfold)
      with False True fr show ?thesis by simp
    next
      case ok: True
      with fpe obtain w2 where
        fp2: "filter_pepolar ext cands1 [] w1
            = (Inr (map (\<lambda>c. (c, pe_dir_of ext (db w) c)) epis), w2)"
        and sf: "same_files (db w) (db w2)"
        by auto
      have ef: "map (\<lambda>c. (c, pe_dir_of ext (db w) c)) epis = epi_fmaps_of ext (db w) found"
        by (simp add: epi_fmaps_of_eq epis_def)
      show ?thesis
      proof (cases "epis = []")
        case True
        then have "collect_fieldmaps ext bold_file_path silent w = (Inr (sort cands1), w2)"
          by (simp add: unfold fp2)
        with sorted_if [OF this] True ok \<open>?sfx\<close> fr show ?thesis by simp
      next
        case False
        have rd: "read_pe_dir (db w2) = read_pe_dir (db w)"
          using sf by (simp add: same_files_def)
        obtain r3 w3 where ce: "check_epi_fmaps ext bold_file_path silent
            (epi_fmaps_of ext (db w) found) cands1 w2 = (r3, w3)"
          by (metis surj_pair)
        have cf: "collect_fieldmaps ext bold_file_path silent w =
            (case r3 of Inl e \<Rightarrow> (Inl e, w3) | Inr candidates2 \<Rightarrow> (Inr (sort candidates2), w3))"
          using False ce by (simp add: unfold fp2 ef [symmetric] split: sum.splits)
        have iff: "(\<exists>candidates2. r3 = Inr candidates2) = ?caught"
          using check_epi_fmaps_cases [of ext bold_file_path silent
              "epi_fmaps_of ext (db w) found" cands1 w2] ce
          by (simp add: rd)
        show ?thesis
        proof (cases r3)
          case (Inl e)
          with iff have "\<not> ?caught" by simp
          moreover from Inl cf have "collect_fieldmaps ext bold_file_path silent w = (Inl e, w3)"
            by simp
          ultimately show ?thesis using False fr by simp
        next
          case (Inr candidates2)
          with iff have t: "?caught" by simp
          from Inr cf have r: "collect_fieldmaps ext bold_file_path silent w
              = (Inr (sort candidates2), w3)" by simp
          from sorted_if [OF r] r t ok \<open>?sfx\<close> fr show ?thesis by simp
        qed
      qed
    qed
  qed
qed

theorem collect_fieldmaps_returns_witness:
  "fieldmaps_return rejecting_externals ''sub-01_bold.nii'' fieldmaps_example
   \<and> fst (collect_fieldmaps rejecting_externals ''sub-01_bold.nii'' False
          \<lparr>db = fieldmaps_example, logged = []\<rparr>)
     = Inr [''sub-01_fieldmap.nii'', ''sub-01_magnitude.nii'']
   \<and> \<not> fieldmaps_return accepting_externals ''sub-01_bold.nii'' undirected_example
   \<and> fst (collect_fieldmaps accepting_externals ''sub-01_bold.nii'' False
          \<lparr>db = undirected_example, logged = []\<rparr>)
     = Inl TypeError"
proof -
  let ?w = "\<lparr>db = fieldmaps_example, logged = []\<rparr>"
  let ?u = "\<lparr>db = undirected_example, logged = []\<rparr>"
  have h: "fieldmaps_return rejecting_externals ''sub-01_bold.nii'' (db ?w)"
    by code_simp
  have n: "\<not> fieldmaps_return accepting_externals ''sub-01_bold.nii'' (db ?u)"
    by code_simp
  have run: "fst (collect_fieldmaps rejecting_externals ''sub-01_bold.nii'' False ?w)
     = Inr [''sub-01_fieldmap.nii'', ''sub-01_magnitude.nii'']"
    by code_simp
  have fails: "fst (collect_fieldmaps accepting_externals ''sub-01_bold.nii'' False ?u)
     = Inl TypeError"
    by code_simp
  from collect_fieldmaps_returns [of rejecting_externals "''sub-01_bold.nii''" ?w False] h
  have "\<exists>fmaps w'. collect_fieldmaps rejecting_externals ''sub-01_bold.nii'' False ?w
      = (Inr fmaps, w') \<and> sorted fmaps \<and> distinct fmaps"
    by blast
  moreover
  from collect_fieldmaps_returns [of accepting_externals "''sub-01_bold.nii''" ?u False] n
  have "\<exists>e w'. collect_fieldmaps accepting_externals ''sub-01_bold.nii'' False ?u = (Inl e, w')"
    by blast
  ultimately show ?thesis using h n run fails by simp
qed

text \<open>
  C8 as stated fails: on a database whose field-map candidate has no suffix tag, the
  assertion of the first loop leaves \<open>collect_fieldmaps\<close> as an AssertionError.
\<close>

theorem collect_fieldmaps_raises:
  "fst (collect_fieldmaps accepting_externals ''sub-01_bold.nii'' False
          \<lparr>db = unsuffixed_example, logged = []\<rparr>) = Inl AssertionError"
  by (simp add: collect_fieldmaps_def accepting_externals_def unsuffixed_example_def
      associations_def tagval_def fieldmap_filters_def Let_def)

subsection \<open>collect\_bold\_files\<close>

lemma sorted_le_last: "sorted xs \<Longrightarrow> x \<in> set xs \<Longrightarrow> x \<le> last (xs :: 'a :: linorder list)"
proof (induction xs)
  case Nil
  then show ?case by simp
next
  case (Cons a xs)
  show ?case
  proof (cases "xs = []")
    case True
    with Cons.prems show ?thesis by simp
  next
    case False
    then have "last xs \<in> set xs" by simp
    with Cons show ?thesis using False by auto
  qed
qed

lemma kept_run_unique: "kept_run ext g a \<Longrightarrow> kept_run ext g b \<Longrightarrow> a = b"
  unfolding kept_run_def by (meson antisym)

lemma select_bold_file_eq:
  assumes "g \<noteq> []"
  shows "select_bold_file ext g = Inr (chosen ext g, Max (nvol ext ` set g))"
proof -
  from assms obtain p ps where g: "g = p # ps" by (cases g) auto
  define mx where "mx = Max (nvol ext ` set g)"
  have fm: "fold max (map (nvol ext) ps) (nvol ext p) = mx"
    using Max.set_eq_fold [of "nvol ext p" "map (nvol ext) ps"] by (simp add: mx_def g)
  define sel where "sel = filter (\<lambda>q. nvol ext q = mx) g"
  have "mx \<in> nvol ext ` set g" unfolding mx_def using assms by (intro Max_in) auto
  then have ne: "sel \<noteq> []" by (auto simp: sel_def filter_empty_conv)
  have one: "sel = [last (sort sel)]" if "\<not> length sel > 1"
  proof -
    from that ne obtain x where "sel = [x]"
      by (cases sel) (auto simp: Suc_le_eq)
    then show ?thesis by simp
  qed
  have "select_bold_file ext g = Inr (last (sort sel), mx)"
  proof (cases "length sel > 1")
    case True
    then show ?thesis
      by (simp add: select_bold_file_def g fm sel_def [unfolded g, symmetric] Let_def del: filter.simps)
  next
    case False
    from one [OF False] obtain x where x: "sel = [x]" by blast
    then have "last (sort sel) = x" by simp
    with False x show ?thesis
      by (simp add: select_bold_file_def g fm sel_def [unfolded g, symmetric] Let_def del: filter.simps)
  qed
  then show ?thesis by (simp add: chosen_def sel_def mx_def)
qed

lemma chosen_kept:
  assumes "g \<noteq> []"
  shows "kept_run ext g (chosen ext g)"
proof -
  define mx where "mx = Max (nvol ext ` set g)"
  define sel where "sel = filter (\<lambda>q. nvol ext q = mx) g"
  have "mx \<in> nvol ext ` set g" unfolding mx_def using assms by (intro Max_in) auto
  then have "sel \<noteq> []" by (auto simp: sel_def filter_empty_conv)
  then have "set (sort sel) \<noteq> {}" by simp
  then have ne: "sort sel \<noteq> []" by fastforce
  have c: "chosen ext g = last (sort sel)" by (simp add: chosen_def sel_def mx_def)
  have "last (sort sel) \<in> set (sort sel)" using ne by (rule last_in_set)
  then have mem: "chosen ext g \<in> set g" and nv: "nvol ext (chosen ext g) = mx"
    by (auto simp: c sel_def)
  have le: "nvol ext p \<le> mx" if "p \<in> set g" for p
    unfolding mx_def using that by (intro Max_ge) auto
  have last: "p \<le> chosen ext g" if "p \<in> set g" "nvol ext p = mx" for p
  proof -
    from that have "p \<in> set (sort sel)" by (simp add: sel_def)
    then show ?thesis unfolding c by (intro sorted_le_last) auto
  qed
  show ?thesis unfolding kept_run_def using mem nv le last by auto
qed

lemma remove_excluded_eq:
  "set ps \<subseteq> dom m \<Longrightarrow> distinct ps \<Longrightarrow>
     remove_excluded ps sel m = Inr (m |` (- (set ps - {sel})))"
proof (induction ps arbitrary: m)
  case Nil
  then show ?case by simp
next
  case (Cons p ps)
  show ?case
  proof (cases "p = sel")
    case True
    have e: "set (p # ps) - {sel} = set ps - {sel}" using True by auto
    have "remove_excluded ps sel m = Inr (m |` (- (set ps - {sel})))"
      by (rule Cons.IH) (use Cons.prems in auto)
    then show ?thesis unfolding e using True by simp
  next
    case False
    from Cons.prems obtain v where v: "m p = Some v" by auto
    have sub: "set ps \<subseteq> dom (m |` (- {p}))"
      using Cons.prems by (auto simp: restrict_map_def)
    have eq: "m(p := None) = m |` (- {p})"
      by (auto simp: restrict_map_def fun_eq_iff)
    have r: "(m |` (- {p})) |` (- (set ps - {sel})) = m |` (- (set (p # ps) - {sel}))"
      using False by (auto simp: restrict_map_def fun_eq_iff)
    from Cons.prems have "distinct ps" by simp
    from Cons.IH [OF sub this] False v r show ?thesis by (simp add: eq)
  qed
qed

lemma resolve_duplicates_eq:
  assumes "distinct (concat gs)" and "[] \<notin> set gs" and "set (concat gs) \<subseteq> dom m"
  shows "\<exists>w'. resolve_duplicates ext gs m w = (Inr (m |` (- excluded_files ext gs)), w')"
  using assms
proof (induction gs arbitrary: m w)
  case Nil
  then show ?case by (simp add: excluded_files_def)
next
  case (Cons g gs)
  from Cons.prems have g: "g \<noteq> []" "distinct g" "set g \<subseteq> dom m"
    and gs: "distinct (concat gs)" "[] \<notin> set gs" "set (concat gs) \<subseteq> dom m"
    and disj: "set g \<inter> set (concat gs) = {}"
    by auto
  have ck: "chosen ext g \<in> set g" using chosen_kept [OF g(1), of ext] by (simp add: kept_run_def)
  have ex: "excluded_files ext (g # gs) = (set g - {chosen ext g}) \<union> excluded_files ext gs"
    by (simp add: excluded_files_def)
  show ?case
  proof (cases "length g = 1")
    case True
    then obtain x where "g = [x]" by (cases g) auto
    with ck have "set g - {chosen ext g} = {}" by auto
    with ex have "excluded_files ext (g # gs) = excluded_files ext gs" by simp
    with Cons.IH [OF gs] True show ?thesis by simp
  next
    case False
    define m' where "m' = m |` (- (set g - {chosen ext g}))"
    have re: "remove_excluded g (chosen ext g) m = Inr m'"
      unfolding m'_def by (rule remove_excluded_eq [OF g(3) g(2)])
    have "set (concat gs) \<subseteq> dom m'"
    proof
      fix x assume x: "x \<in> set (concat gs)"
      with disj have "x \<notin> set g" by blast
      moreover from x gs(3) have "x \<in> dom m" by blast
      ultimately show "x \<in> dom m'" by (auto simp: m'_def restrict_map_def)
    qed
    from Cons.IH [OF gs(1) gs(2) this]
    have "\<exists>w'. resolve_duplicates ext gs m' w0 = (Inr (m' |` (- excluded_files ext gs)), w')" for w0
      by blast
    moreover have "m' |` (- excluded_files ext gs) = m |` (- excluded_files ext (g # gs))"
      by (auto simp: m'_def ex restrict_map_def fun_eq_iff)
    ultimately show ?thesis using False re
      by (simp add: select_bold_file_eq [OF g(1)] Let_def)
  qed
qed

lemma bids_dict_add_set:
  "set (concat (map snd (bids_dict_add k p d))) = insert p (set (concat (map snd d)))"
proof (induction d)
  case Nil
  then show ?case by simp
next
  case (Cons kv d)
  obtain k' g where kv: "kv = (k', g)" by (cases kv)
  show ?case using Cons.IH by (cases "k' = k") (auto simp: kv)
qed

lemma bids_dict_add_distinct:
  "p \<notin> set (concat (map snd d)) \<Longrightarrow> distinct (concat (map snd d))
     \<Longrightarrow> distinct (concat (map snd (bids_dict_add k p d)))"
proof (induction d)
  case Nil
  then show ?case by simp
next
  case (Cons kv d)
  obtain k' g where kv: "kv = (k', g)" by (cases kv)
  show ?case
  proof (cases "k' = k")
    case True
    with Cons.prems show ?thesis by (auto simp: kv)
  next
    case False
    from Cons.prems have "distinct (concat (map snd (bids_dict_add k p d)))"
      by (intro Cons.IH) (auto simp: kv)
    moreover have "set g \<inter> set (concat (map snd (bids_dict_add k p d))) = {}"
      using Cons.prems unfolding bids_dict_add_set by (auto simp: kv)
    ultimately show ?thesis using Cons.prems False by (simp add: kv)
  qed
qed

lemma bids_dict_add_nonempty:
  "[] \<notin> snd ` set d \<Longrightarrow> [] \<notin> snd ` set (bids_dict_add k p d)"
proof (induction d)
  case Nil
  then show ?case by simp
next
  case (Cons kv d)
  obtain k' g where kv: "kv = (k', g)" by (cases kv)
  show ?case using Cons by (cases "k' = k") (auto simp: kv)
qed

lemma group_step:
  assumes "group_by_bids_path bd (p # ps) b d = Inr d'"
  shows "\<exists>d1. group_by_bids_path bd ps (snd (bids_put bd b p)) d1 = Inr d'
      \<and> (d1 = d \<or> (\<exists>k. d1 = bids_dict_add k p d))
      \<and> ((fst (bids_put bd b p) = Some ValueError
           \<or> (fst (bids_put bd b p) = None
               \<and> bids_to_bids bd (snd (bids_put bd b p)) p = Inl ValueError))
          \<longrightarrow> d1 = d)"
proof -
  obtain e b' where put: "bids_put bd b p = (e, b')" by (cases "bids_put bd b p")
  show ?thesis
  proof (cases e)
    case (Some err)
    with assms put have "err = ValueError" "group_by_bids_path bd ps b' d = Inr d'"
      by (auto split: if_splits)
    then show ?thesis using put Some by auto
  next
    case None
    show ?thesis
    proof (cases "bids_to_bids bd b' p")
      case (Inl err)
      with assms put None have "err = ValueError" "group_by_bids_path bd ps b' d = Inr d'"
        by (auto split: if_splits)
      then show ?thesis using put None Inl by auto
    next
      case (Inr r)
      with assms put None obtain k where k: "r = Some k"
        by (cases r) auto
      with assms put None Inr
      have "group_by_bids_path bd ps b' (bids_dict_add k p d) = Inr d'" by simp
      then show ?thesis using put None Inr by auto
    qed
  qed
qed

lemma group_step_inv:
  assumes "d1 = d \<or> (\<exists>k. d1 = bids_dict_add k p d)"
    and "p \<notin> set ps" and "p \<notin> set (concat (map snd d))"
    and "set ps \<inter> set (concat (map snd d)) = {}"
    and "distinct (concat (map snd d))" and "[] \<notin> snd ` set d"
  shows "set (concat (map snd d1)) \<subseteq> insert p (set (concat (map snd d)))"
    and "distinct (concat (map snd d1))" and "[] \<notin> snd ` set d1"
    and "set ps \<inter> set (concat (map snd d1)) = {}"
proof -
  show s1: "set (concat (map snd d1)) \<subseteq> insert p (set (concat (map snd d)))"
    using assms(1) by (auto simp: bids_dict_add_set simp del: set_concat)
  show "distinct (concat (map snd d1))"
    using assms(1,3,5) by (auto intro: bids_dict_add_distinct)
  show "[] \<notin> snd ` set d1"
    using assms(1,6) bids_dict_add_nonempty [of d _ p] by blast
  show "set ps \<inter> set (concat (map snd d1)) = {}"
    using s1 assms(2,4) by blast
qed

lemma group_by_bids_path_inv:
  assumes "group_by_bids_path bd ps b d = Inr d'"
    and "distinct ps" and "set ps \<inter> set (concat (map snd d)) = {}"
    and "distinct (concat (map snd d))" and "[] \<notin> snd ` set d"
  shows "distinct (concat (map snd d')) \<and> [] \<notin> snd ` set d'
         \<and> set (concat (map snd d')) \<subseteq> set (concat (map snd d)) \<union> set ps"
  using assms
proof (induction ps arbitrary: b d)
  case Nil
  then show ?case by simp
next
  case (Cons p ps)
  from group_step [OF Cons.prems(1)] obtain d1 where
    g: "group_by_bids_path bd ps (snd (bids_put bd b p)) d1 = Inr d'"
    and d1: "d1 = d \<or> (\<exists>k. d1 = bids_dict_add k p d)"
    by blast
  from Cons.prems have p: "p \<notin> set ps" "p \<notin> set (concat (map snd d))" "distinct ps"
    and ps: "set ps \<inter> set (concat (map snd d)) = {}"
    by auto
  note inv = group_step_inv [OF d1 p(1) p(2) ps Cons.prems(4) Cons.prems(5)]
  define A A1 A' where "A = set (concat (map snd d))" and "A1 = set (concat (map snd d1))"
    and "A' = set (concat (map snd d'))"
  from Cons.IH [OF g p(3) inv(4) inv(2) inv(3)]
  have r: "distinct (concat (map snd d'))" "[] \<notin> snd ` set d'" "A' \<subseteq> A1 \<union> set ps"
    unfolding A1_def A'_def by blast+
  from inv(1) have "A1 \<subseteq> insert p A" unfolding A_def A1_def .
  with r(3) have "A' \<subseteq> A \<union> set (p # ps)" by auto
  with r(1,2) show ?case unfolding A_def A'_def by blast
qed


lemma distinct_concat_same:
  assumes "distinct (concat gs)" "g \<in> set gs" "g' \<in> set gs" "x \<in> set g" "x \<in> set g'"
  shows "g = g'"
  using assms unfolding distinct_concat_iff by blast

lemma collect_bold_files_stages:
  assumes "collect_bold_files ext bd ss fs w = (Inr result, w')"
  shows "\<exists>m w1 d.
      collect_associated ext (remdups (ss @ fs)) Map.empty w = (Inr m, w1)
      \<and> group_by_bids_path bd (filter (\<lambda>p. m p \<noteq> None) (remdups (ss @ fs)))
            (bids_new bd (db w1)) [] = Inr d
      \<and> distinct (concat (map snd d)) \<and> [] \<notin> snd ` set d
      \<and> set (concat (map snd d)) \<subseteq> dom m
      \<and> result = m |` (- excluded_files ext (map snd d))"
proof -
  define paths where "paths = remdups (ss @ fs)"
  obtain r1 w1 where ca: "collect_associated ext paths Map.empty w = (r1, w1)"
    by (cases "collect_associated ext paths Map.empty w")
  with assms obtain m where r1: "r1 = Inr m"
    by (cases r1) (auto simp: collect_bold_files_def paths_def Let_def)
  define paths' where "paths' = filter (\<lambda>p. m p \<noteq> None) paths"
  have cb: "(case group_by_bids_path bd paths' (bids_new bd (db w1)) [] of
               Inl e \<Rightarrow> (Inl e, w1)
             | Inr bids_dict \<Rightarrow> resolve_duplicates ext (map snd bids_dict) m w1)
            = (Inr result, w')"
    using assms unfolding collect_bold_files_def Let_def paths_def [symmetric] ca r1 paths'_def
    by simp
  then obtain d where
    g: "group_by_bids_path bd paths' (bids_new bd (db w1)) [] = Inr d"
    and rd: "resolve_duplicates ext (map snd d) m w1 = (Inr result, w')"
    by (cases "group_by_bids_path bd paths' (bids_new bd (db w1)) []") auto
  have dp: "distinct paths'" by (simp add: paths'_def paths_def)
  from group_by_bids_path_inv [OF g dp]
  have inv: "distinct (concat (map snd d))" "[] \<notin> snd ` set d"
    "set (concat (map snd d)) \<subseteq> set paths'"
    by simp_all
  have "set paths' \<subseteq> dom m" by (auto simp: paths'_def)
  with inv(3) have sub: "set (concat (map snd d)) \<subseteq> dom m" by (rule subset_trans)
  from inv(2) have ne: "[] \<notin> set (map snd d)" by simp
  from resolve_duplicates_eq [OF inv(1) ne sub, of ext w1] rd
  have "result = m |` (- excluded_files ext (map snd d))" by auto
  with ca r1 g inv(1,2) sub show ?thesis
    unfolding paths_def paths'_def by blast
qed

text \<open>
  What the third loop does with the sets it is given: whenever \<open>collect_bold_files\<close>
  returns a mapping, every set of more than one BOLD file in \<open>bids_dict\<close> has exactly
  one member left among the keys of the mapping, the kept run of the set.
\<close>

lemma sets_of_bids_dict_resolved:
  assumes "collect_bold_files ext bd setting_source_files feature_source_files w
             = (Inr result, w')"
  shows "\<exists>bold_file_paths_dict w1 bids_dict.
      collect_associated ext (remdups (setting_source_files @ feature_source_files))
          Map.empty w = (Inr bold_file_paths_dict, w1)
      \<and> group_by_bids_path bd
          (filter (\<lambda>p. bold_file_paths_dict p \<noteq> None)
             (remdups (setting_source_files @ feature_source_files)))
          (bids_new bd (db w1)) [] = Inr bids_dict
      \<and> (\<forall>pathset \<in> snd ` set bids_dict. 1 < length pathset \<longrightarrow>
            (\<exists>sel. kept_run ext pathset sel
               \<and> result sel = bold_file_paths_dict sel \<and> result sel \<noteq> None
               \<and> (\<forall>p \<in> set pathset. p \<noteq> sel \<longrightarrow> result p = None)))"
proof -
  from collect_bold_files_stages [OF assms] obtain m w1 d where
    ca: "collect_associated ext (remdups (setting_source_files @ feature_source_files))
          Map.empty w = (Inr m, w1)"
    and g: "group_by_bids_path bd
          (filter (\<lambda>p. m p \<noteq> None) (remdups (setting_source_files @ feature_source_files)))
          (bids_new bd (db w1)) [] = Inr d"
    and dist: "distinct (concat (map snd d))" and ne: "[] \<notin> snd ` set d"
    and sub: "set (concat (map snd d)) \<subseteq> dom m"
    and res: "result = m |` (- excluded_files ext (map snd d))"
    by blast
  have each: "\<exists>sel. kept_run ext pathset sel
               \<and> result sel = m sel \<and> result sel \<noteq> None
               \<and> (\<forall>p \<in> set pathset. p \<noteq> sel \<longrightarrow> result p = None)"
    if ps: "pathset \<in> snd ` set d" for pathset
  proof -
    from ps ne have nonempty: "pathset \<noteq> []" by metis
    from ps have mem: "pathset \<in> set (map snd d)" by simp
    let ?sel = "chosen ext pathset"
    have k: "kept_run ext pathset ?sel" by (rule chosen_kept [OF nonempty])
    then have sel_in: "?sel \<in> set pathset" by (simp add: kept_run_def)
    then have "?sel \<in> set (concat (map snd d))" using mem by auto
    with sub have dm: "m ?sel \<noteq> None" by auto
    have "?sel \<notin> excluded_files ext (map snd d)"
    proof
      assume "?sel \<in> excluded_files ext (map snd d)"
      then obtain g' where g': "g' \<in> set (map snd d)" "?sel \<in> set g'" "?sel \<noteq> chosen ext g'"
        by (auto simp: excluded_files_def)
      from distinct_concat_same [OF dist mem g'(1) sel_in g'(2)] g'(3) show False by simp
    qed
    then have keep: "result ?sel = m ?sel" by (simp add: res)
    have "result p = None" if "p \<in> set pathset" "p \<noteq> ?sel" for p
    proof -
      from that mem have "p \<in> excluded_files ext (map snd d)"
        unfolding excluded_files_def by blast
      then show ?thesis by (simp add: res)
    qed
    with k keep dm show ?thesis by auto
  qed
  from ca g each show ?thesis by blast
qed



lemmas bold_eval = collect_bold_files_def bold_example_def volume_externals_def
  associations_def tagval_def collect_fieldmaps_def fieldmap_filters_def Let_def
  select_bold_file_def logger_def

lemma sets_of_bids_dict_resolved_example:
  "map_sum id (\<lambda>r. (r ''scan1/sub-01_task-rest_bold.nii'', r ''scan2/sub-01_task-rest_bold.nii''))
      (fst (collect_bold_files volume_externals constant_bids
          [''scan1/sub-01_task-rest_bold.nii''] [''scan2/sub-01_task-rest_bold.nii'']
          \<lparr>db = bold_example, logged = []\<rparr>))
     = Inr (None, Some [''scan2/sub-01_task-rest_bold.nii'', ''sub-01_T1w.nii''])
   \<and> group_by_bids_path constant_bids
        [''scan1/sub-01_task-rest_bold.nii'', ''scan2/sub-01_task-rest_bold.nii''] () []
     = Inr [(''sub-01/func/sub-01_task-rest_bold.nii'',
             [''scan1/sub-01_task-rest_bold.nii'', ''scan2/sub-01_task-rest_bold.nii''])]
   \<and> kept_run volume_externals
        [''scan1/sub-01_task-rest_bold.nii'', ''scan2/sub-01_task-rest_bold.nii'']
        ''scan2/sub-01_task-rest_bold.nii''
   \<and> nvol volume_externals ''scan1/sub-01_task-rest_bold.nii'' = 120
   \<and> nvol volume_externals ''scan2/sub-01_task-rest_bold.nii'' = 200"
proof -
  let ?w = "\<lparr>db = bold_example, logged = []\<rparr>"
  let ?a = "''scan1/sub-01_task-rest_bold.nii''"
  let ?b = "''scan2/sub-01_task-rest_bold.nii''"
  let ?run = "collect_bold_files volume_externals constant_bids [?a] [?b] ?w"
  have e: "map_sum id (\<lambda>r. (r ?a, r ?b)) (fst ?run) = Inr (None, Some [?b, ''sub-01_T1w.nii''])"
    by (simp add: bold_eval constant_bids_def)
  then obtain result where r: "fst ?run = Inr result"
    by (cases "fst ?run") auto
  then have run: "?run = (Inr result, snd ?run)" by (metis prod.collapse)
  have ca: "collect_associated volume_externals (remdups ([?a] @ [?b])) Map.empty ?w
      = (Inr [?a \<mapsto> [?a, ''sub-01_T1w.nii''], ?b \<mapsto> [?b, ''sub-01_T1w.nii'']], ?w)"
    by (simp add: bold_eval)
  have g: "group_by_bids_path constant_bids [?a, ?b] () []
      = Inr [(''sub-01/func/sub-01_task-rest_bold.nii'', [?a, ?b])]"
    by (simp add: constant_bids_def)
  from sets_of_bids_dict_resolved [OF run] ca g
  have "\<exists>sel. kept_run volume_externals [?a, ?b] sel \<and> result sel \<noteq> None
         \<and> (\<forall>p \<in> set [?a, ?b]. p \<noteq> sel \<longrightarrow> result p = None)"
    by (auto simp: constant_bids_def)
  moreover from e r have "result ?b \<noteq> None" by auto
  ultimately have "kept_run volume_externals [?a, ?b] ?b" by auto
  moreover have "nvol volume_externals ?a = 120" "nvol volume_externals ?b = 200"
    by (simp_all add: volume_externals_def)
  ultimately show ?thesis using e g by simp
qed



lemma bids_dict_add_singletons:
  assumes "\<forall>(k, pathset) \<in> set bids_dict. \<exists>g. pathset = [g] \<and> (k = p \<longrightarrow> g = f)"
  shows "set (bids_dict_add p f bids_dict) \<subseteq> insert (p, [f]) (set bids_dict)"
  using assms
proof (induction bids_dict)
  case Nil
  then show ?case by simp
next
  case (Cons kv bids_dict)
  obtain k pathset where kv: "kv = (k, pathset)" by (cases kv)
  from Cons.prems kv obtain g where g: "pathset = [g]" "k = p \<longrightarrow> g = f" by auto
  have "set (bids_dict_add p f bids_dict) \<subseteq> insert (p, [f]) (set bids_dict)"
    using Cons.prems by (intro Cons.IH) auto
  then show ?case using g by (auto simp: kv)
qed

lemma resolve_duplicates_singletons:
  "\<forall>pathset \<in> set pathsets. length pathset = 1 \<Longrightarrow>
     resolve_duplicates ext pathsets m w = (Inr m, w)"
  by (induction pathsets) simp_all

lemma group_by_spec_bids:
  assumes "group_by_bids_path (spec_bids bids_name) paths b bids_dict = Inr bids_dict'"
    and "registry_ok bids_name b bids_dict"
  shows "\<forall>(k, pathset) \<in> set bids_dict'. length pathset = 1"
  using assms
proof (induction paths arbitrary: b bids_dict)
  case Nil
  obtain d registered where b: "b = (d, registered)" by (cases b)
  from Nil.prems(2) b
  have sets: "\<forall>(k, pathset) \<in> set bids_dict. \<exists>g. pathset = [g] \<and> (g, k) \<in> set registered"
    by (simp add: registry_ok_def)
  have "length pathset = 1" if "(k, pathset) \<in> set bids_dict" for k pathset
  proof -
    from that sets obtain g where "pathset = [g]" by blast
    then show ?thesis by simp
  qed
  with Nil.prems(1) show ?case by auto
next
  case (Cons f paths)
  obtain d registered where b: "b = (d, registered)" by (cases b)
  let ?p = "bids_name d f"
  from Cons.prems(2) b have names: "\<forall>(g, q) \<in> set registered. q = bids_name d g"
    and sets: "\<forall>(k, pathset) \<in> set bids_dict. \<exists>g. pathset = [g] \<and> (g, k) \<in> set registered"
    by (auto simp: registry_ok_def)
  show ?case
  proof (cases "list_ex (\<lambda>(g, q). q = ?p \<and> g \<noteq> f) registered")
    case True
    with Cons.prems(1) b
    have "group_by_bids_path (spec_bids bids_name) paths b bids_dict = Inr bids_dict'"
      by (simp add: spec_bids_def)
    from Cons.IH [OF this Cons.prems(2)] show ?thesis .
  next
    case False
    define registered' where "registered' =
      (if map_of registered f = None then registered @ [(f, ?p)] else registered)"
    have none: "\<forall>(g, q) \<in> set registered. q = ?p \<longrightarrow> g = f"
      using False by (auto simp: list_ex_iff)
    have mo: "map_of registered' f = Some ?p"
    proof (cases "map_of registered f")
      case None
      then show ?thesis by (simp add: registered'_def map_of_append map_add_def)
    next
      case (Some q)
      then have "(f, q) \<in> set registered" by (rule map_of_SomeD)
      with names have "q = ?p" by auto
      with Some show ?thesis by (simp add: registered'_def)
    qed
    have sub: "set registered \<subseteq> set registered'" by (auto simp: registered'_def)
    have mem: "(f, ?p) \<in> set registered'" using mo by (rule map_of_SomeD)
    have names': "\<forall>(g, q) \<in> set registered'. q = bids_name d g"
      using names by (auto simp: registered'_def)
    from Cons.prems(1) b False mo
    have g: "group_by_bids_path (spec_bids bids_name) paths (d, registered')
        (bids_dict_add ?p f bids_dict) = Inr bids_dict'"
      by (simp add: spec_bids_def registered'_def [symmetric])
    have "\<forall>(k, pathset) \<in> set bids_dict. \<exists>g. pathset = [g] \<and> (k = ?p \<longrightarrow> g = f)"
    proof (clarify)
      fix k pathset assume "(k, pathset) \<in> set bids_dict"
      with sets obtain g where g: "pathset = [g]" "(g, k) \<in> set registered" by blast
      from g(2) none have "k = ?p \<longrightarrow> g = f" by blast
      with g(1) show "\<exists>g. pathset = [g] \<and> (k = ?p \<longrightarrow> g = f)" by blast
    qed
    from bids_dict_add_singletons [OF this]
    have ins: "set (bids_dict_add ?p f bids_dict) \<subseteq> insert (?p, [f]) (set bids_dict)" .
    have "\<forall>(k, pathset) \<in> set (bids_dict_add ?p f bids_dict).
        \<exists>g. pathset = [g] \<and> (g, k) \<in> set registered'"
    proof (clarify)
      fix k pathset assume "(k, pathset) \<in> set (bids_dict_add ?p f bids_dict)"
      with ins have "(k, pathset) = (?p, [f]) \<or> (k, pathset) \<in> set bids_dict" by blast
      then show "\<exists>g. pathset = [g] \<and> (g, k) \<in> set registered'"
      proof
        assume "(k, pathset) = (?p, [f])"
        with mem show ?thesis by simp
      next
        assume "(k, pathset) \<in> set bids_dict"
        with sets obtain g where "pathset = [g]" "(g, k) \<in> set registered" by blast
        with sub show ?thesis by blast
      qed
    qed
    with names' have "registry_ok bids_name (d, registered') (bids_dict_add ?p f bids_dict)"
      by (simp add: registry_ok_def)
    from Cons.IH [OF g this] show ?thesis .
  qed
qed

text \<open>
  C1 (evaluation of the code with the translator of the spec). With a translator whose
  \<open>put\<close> fails when a different file holds the canonical path already, no set of
  \<open>bids_dict\<close> ever has two members: the second of two BOLD files with the same
  canonical path raises ValueError in \<open>put\<close> and the loop goes on to the next file.
  Whenever \<open>collect_bold_files\<close> returns, the mapping is the dictionary as the first
  loop left it; no run is removed, whatever the volume counts are.
\<close>

theorem duplicates_never_resolved:
  assumes "collect_bold_files ext (spec_bids bids_name) setting_source_files
             feature_source_files w = (Inr result, w')"
  shows "\<exists>bold_file_paths_dict w1.
      collect_associated ext (remdups (setting_source_files @ feature_source_files))
          Map.empty w = (Inr bold_file_paths_dict, w1)
      \<and> result = bold_file_paths_dict"
proof -
  from collect_bold_files_stages [OF assms] obtain m w1 d where
    ca: "collect_associated ext (remdups (setting_source_files @ feature_source_files))
          Map.empty w = (Inr m, w1)"
    and g: "group_by_bids_path (spec_bids bids_name)
          (filter (\<lambda>p. m p \<noteq> None) (remdups (setting_source_files @ feature_source_files)))
          (bids_new (spec_bids bids_name) (db w1)) [] = Inr d"
    by blast
  have "registry_ok bids_name (bids_new (spec_bids bids_name) (db w1)) []"
    by (simp add: registry_ok_def spec_bids_def)
  from group_by_spec_bids [OF g this]
  have one: "\<forall>pathset \<in> set (map snd d). length pathset = 1" by auto
  have "collect_bold_files ext (spec_bids bids_name) setting_source_files
             feature_source_files w
      = resolve_duplicates ext (map snd d) m w1"
    using ca g by (simp add: collect_bold_files_def Let_def)
  with assms resolve_duplicates_singletons [OF one, of ext m w1] have "result = m" by simp
  with ca show ?thesis by blast
qed

theorem duplicates_never_resolved_witness:
  "map_sum id (\<lambda>r. (r ''scan1/sub-01_task-rest_bold.nii'', r ''scan2/sub-01_task-rest_bold.nii''))
      (fst (collect_bold_files volume_externals (spec_bids subject_bids_name)
          [''scan1/sub-01_task-rest_bold.nii''] [''scan2/sub-01_task-rest_bold.nii'']
          \<lparr>db = bold_example, logged = []\<rparr>))
     = Inr (Some [''scan1/sub-01_task-rest_bold.nii'', ''sub-01_T1w.nii''],
            Some [''scan2/sub-01_task-rest_bold.nii'', ''sub-01_T1w.nii''])
   \<and> subject_bids_name bold_example ''scan1/sub-01_task-rest_bold.nii''
     = subject_bids_name bold_example ''scan2/sub-01_task-rest_bold.nii''
   \<and> nvol volume_externals ''scan1/sub-01_task-rest_bold.nii'' = 120
   \<and> nvol volume_externals ''scan2/sub-01_task-rest_bold.nii'' = 200"
proof -
  let ?w = "\<lparr>db = bold_example, logged = []\<rparr>"
  let ?a = "''scan1/sub-01_task-rest_bold.nii''"
  let ?b = "''scan2/sub-01_task-rest_bold.nii''"
  let ?run = "collect_bold_files volume_externals (spec_bids subject_bids_name) [?a] [?b] ?w"
  have "\<exists>result. fst ?run = Inr result"
    by (simp add: bold_eval spec_bids_def subject_bids_name_def)
  then obtain result where r: "fst ?run = Inr result" by blast
  then have run: "?run = (Inr result, snd ?run)" by (metis prod.collapse)
  have ca: "collect_associated volume_externals (remdups ([?a] @ [?b])) Map.empty ?w
      = (Inr [?a \<mapsto> [?a, ''sub-01_T1w.nii''], ?b \<mapsto> [?b, ''sub-01_T1w.nii'']], ?w)"
    by (simp add: bold_eval)
  from duplicates_never_resolved [OF run] ca
  have "result = [?a \<mapsto> [?a, ''sub-01_T1w.nii''], ?b \<mapsto> [?b, ''sub-01_T1w.nii'']]"
    by simp
  then have "result ?a = Some [?a, ''sub-01_T1w.nii'']" "result ?b = Some [?b, ''sub-01_T1w.nii'']"
    by simp_all
  moreover have "subject_bids_name bold_example ?a = subject_bids_name bold_example ?b"
    by (simp add: subject_bids_name_def bold_example_def tagval_def)
  moreover have "nvol volume_externals ?a = 120" "nvol volume_externals ?b = 200"
    by (simp_all add: volume_externals_def)
  ultimately show ?thesis using r by simp
qed

subsection \<open>CheckMetadataStep\<close>

lemma render_vals_map:
  "render_vals ui k filepaths (map f filepaths)
     = map (\<lambda>filepath. map_option (render_val ui k filepath) (f filepath)) filepaths"
proof -
  have id: "map_option (\<lambda>v. v) x = x" for x :: "'v option"
    by (cases x) simp_all
  show ?thesis
    by (auto simp: render_vals_def render_val_def [abs_def] zip_map1 zip_same_conv_map
        Let_def id split: option.splits)
qed

lemma observed_vals_map:
  "observed_vals ui cls filepaths d
     = map (\<lambda>filepath. map_option (render_val ui (step_key cls) filepath)
              (metadata (fillmetadata (step_key cls) filepaths d) filepath (step_key cls)))
         filepaths"
  unfolding observed_vals_def by (rule render_vals_map)

lemma observed_all_None:
  "list_all (\<lambda>val. val = None) (observed_vals ui cls filepaths d)
     = (\<forall>filepath \<in> set filepaths.
          metadata (fillmetadata (step_key cls) filepaths d) filepath (step_key cls) = None)"
  by (simp add: observed_vals_map list_all_iff)

lemma observed_no_None:
  "(\<not> list_ex (\<lambda>val. val = None) (observed_vals ui cls filepaths d))
     = (\<forall>filepath \<in> set filepaths.
          metadata (fillmetadata (step_key cls) filepaths d) filepath (step_key cls) \<noteq> None)"
  by (auto simp: observed_vals_map list_ex_iff image_iff)

text \<open>
  C7 (as amended). If the step is not configured to skip and every resolved file's value
  for the key is absent after back-fill, \<open>setup\<close> marks the step missing, appends no
  view and sets no suggestion, and the database is the back-filled one. On the first run
  \<open>run\<close> returns \<open>True\<close> without calling an input view, and \<open>next\<close> then hands over
  to a \<open>SetMetadataStep\<close> without suggestion, not to the continuation step. On a later
  run \<open>run\<close> returns \<open>False\<close> and \<open>next\<close> makes no transition.
\<close>

theorem missing_metadata_step:
  assumes "\<not> step_should_skip cls"
    and "\<forall>filepath \<in> set filepaths.
           metadata (fillmetadata (step_key cls) filepaths d) filepath (step_key cls) = None"
  shows "\<exists>step.
      setup_step ui cls filepaths d = Inr (step, fillmetadata (step_key cls) filepaths d)
      \<and> is_missing step \<and> views step = [] \<and> suggestion step = None
      \<and> run_step step answer = (True, False, step)
      \<and> next_step step = (ToSetMetadataStep None, step\<lparr>is_first_run := False\<rparr>)
      \<and> run_step (step\<lparr>is_first_run := False\<rparr>) answer
           = (False, False, step\<lparr>is_first_run := False\<rparr>)
      \<and> next_step (step\<lparr>is_first_run := False\<rparr>)
           = (NoTransition, step\<lparr>is_first_run := False\<rparr>)"
proof -
  have "list_all (\<lambda>val. val = None) (observed_vals ui cls filepaths d)"
    using assms(2) by (simp add: observed_all_None)
  then have "setup_step ui cls filepaths d =
      Inr (\<lparr>is_first_run = True, should_skip = False, choice = None,
            is_missing = True, suggestion = None, views = []\<rparr>,
           fillmetadata (step_key cls) filepaths d)"
    using assms(1) by (simp add: setup_step_def Let_def observed_vals_def)
  then show ?thesis by (simp add: run_step_def next_step_def)
qed

theorem missing_metadata_step_witness:
  "map_sum id
     (\<lambda>(step, d). (is_missing step, views step, fst (run_step step None),
                    fst (snd (run_step step None)), fst (next_step step)))
     (setup_step plain_ui repetition_time_class
        [''scan1/sub-01_task-rest_bold.nii'', ''scan2/sub-01_task-rest_bold.nii'']
        bold_example)
   = Inr (True, [], True, False, ToSetMetadataStep None)"
proof -
  let ?files = "[''scan1/sub-01_task-rest_bold.nii'', ''scan2/sub-01_task-rest_bold.nii'']"
  have h1: "\<not> step_should_skip repetition_time_class"
    by (simp add: repetition_time_class_def)
  have h2: "\<forall>filepath \<in> set ?files.
      metadata (fillmetadata (step_key repetition_time_class) ?files bold_example) filepath
        (step_key repetition_time_class) = None"
    by code_simp
  from missing_metadata_step [OF h1 h2, of plain_ui None]
  show ?thesis by auto
qed

text \<open>
  C7 as stated fails: for one file without phase-encoding direction the step is missing,
  and \<open>next\<close> constructs a \<open>SetMetadataStep\<close> instead of calling the continuation
  step.
\<close>

theorem missing_metadata_goes_to_set_metadata:
  "map_sum id (\<lambda>(step, d). (is_missing step, fst (next_step step)))
     (setup_step plain_ui
        \<lparr>step_key = ''phase_encoding_direction'', step_unit = None, step_should_skip = False\<rparr>
        [''sub-01_bold.nii''] unsuffixed_example)
   = Inr (True, ToSetMetadataStep None)"
  by code_simp


lemma present_no_None:
  "\<not> list_ex (\<lambda>val. val = None) vals \<Longrightarrow> map Some (present vals) = vals"
  by (induction vals rule: present.induct) simp_all

lemma listed_take:
  "length counts = length uniquevals \<Longrightarrow>
     listed (uniquevals, counts) = take 10 (zip counts uniquevals)"
  by (simp add: listed_def min_def)

text \<open>
  When the step is not configured to skip and every resolved file has a value,
  \<open>setup\<close> returns, and the step is as follows.
\<close>

lemma check_metadata_listing_total:
  assumes "\<not> step_should_skip cls" and "filepaths \<noteq> []"
    and "\<forall>filepath \<in> set filepaths.
           metadata (fillmetadata (step_key cls) filepaths d) filepath (step_key cls) \<noteq> None"
  shows "\<exists>step uniquevals counts rows.
      setup_step ui cls filepaths d = Inr (step, fillmetadata (step_key cls) filepaths d)
      \<and> \<not> is_missing step
      \<and> np_unique (observed_vals ui cls filepaths d) = Inr (uniquevals, counts)
      \<and> rows = take 10 (zip counts uniquevals)
      \<and> rows \<noteq> [] \<and> length rows \<le> 10 \<and> distinct (map snd rows)
      \<and> (\<forall>(c, u) \<in> set rows.
            c = count_list (present (observed_vals ui cls filepaths d)) u \<and> 0 < c)
      \<and> views step =
          TextView (''Check '' @ lower ui (humanize ui (step_key cls)) @ '' values'')
          # map (row_view ui (Max (length ` set (column1_of rows)))
                   (if step_key cls = ''slice_timing'' then []
                    else case step_unit cls of None \<Rightarrow> [] | Some x \<Rightarrow> x)) rows
          @ (if 10 < length uniquevals then [TextView ''...''] else [])
          @ [TextView ''Proceed with these values?'',
             SingleChoiceInputView [''Yes'', ''No''] False, SpacerView 1]
      \<and> suggestion step = Some (display_str ui (format ui (snd (hd rows))))
      \<and> fst (next_step (snd (snd (run_step step (Some ''No'')))))
          = ToSetMetadataStep (suggestion step)"
proof -
  define vals where "vals = observed_vals ui cls filepaths d"
  define pv where "pv = present vals"
  define us where "us = sort (remdups pv)"
  define cs where "cs = map (count_list pv) us"
  define rows where "rows = take 10 (zip cs us)"
  have nn: "\<not> list_ex (\<lambda>val. val = None) vals"
    using assms(3) by (simp add: vals_def observed_no_None)
  have len: "length vals = length filepaths"
    by (simp add: vals_def observed_vals_map)
  with assms(2) have vne: "vals \<noteq> []" by auto
  from present_no_None [OF nn] have mp: "map Some pv = vals" by (simp add: pv_def)
  with vne have pne: "pv \<noteq> []" by auto
  have nall: "\<not> list_all (\<lambda>val. val = None) vals"
  proof
    assume "list_all (\<lambda>val. val = None) vals"
    with vne nn show False by (cases vals) auto
  qed
  have une: "us \<noteq> []"
  proof
    assume "us = []"
    then have "set us = {}" by simp
    with pne show False by (simp add: us_def)
  qed
  have uq: "np_unique vals = Inr (us, cs)"
    using nn by (simp add: np_unique_def Let_def us_def cs_def pv_def)
  have lst: "listed (us, cs) = rows"
    by (simp add: rows_def cs_def listed_take)
  have zne: "zip cs us \<noteq> []" using une by (cases us) (simp_all add: cs_def)
  then have rne: "rows \<noteq> []" by (simp add: rows_def)
  then obtain c u rest where r: "rows = (c, u) # rest" by (cases rows) auto
  have cne: "column1_of rows \<noteq> []" using rne by (simp add: column1_of_def)
  have ms: "map snd rows = take 10 us"
    by (simp add: rows_def cs_def take_map [symmetric] del: take_map)
  have dist: "distinct (map snd rows)"
    unfolding ms us_def by (intro distinct_take) simp
  have cnt: "\<forall>(c, u) \<in> set rows. c = count_list pv u \<and> 0 < c"
  proof -
    have "c = count_list pv u \<and> 0 < c" if "(c, u) \<in> set rows" for c u
    proof -
      from that have "(c, u) \<in> set (zip cs us)"
        unfolding rows_def by (rule in_set_takeD)
      then have "u \<in> set us" "c = count_list pv u"
        by (auto simp: cs_def zip_map1 in_set_zip)
      moreover from this(1) have "u \<in> set pv" by (simp add: us_def)
      then have "count_list pv u \<noteq> 0" by (simp add: count_list_0_iff)
      ultimately show ?thesis by simp
    qed
    then show ?thesis by auto
  qed
  define w where "w = Max (length ` set (column1_of rows))"
  define unit_str where "unit_str = (if step_key cls = ''slice_timing'' then []
                    else case step_unit cls of None \<Rightarrow> [] | Some x \<Rightarrow> x)"
  have wf: "fold max (map length (tl (column1_of rows))) (length (hd (column1_of rows))) = w"
  proof -
    from cne obtain x xs where x: "column1_of rows = x # xs" by (cases "column1_of rows") auto
    show ?thesis
      using Max.set_eq_fold [of "length x" "map length xs"] by (simp add: x w_def)
  qed
  have sg: "(case rows of [] \<Rightarrow> None | (c, u) # _ \<Rightarrow> Some (display_str ui (format ui u)))
      = Some (display_str ui (format ui (snd (hd rows))))"
    by (simp add: r)
  define step where "step =
      \<lparr>is_first_run = True, should_skip = False, choice = None, is_missing = False,
        suggestion = Some (display_str ui (format ui (snd (hd rows)))),
        views = TextView (''Check '' @ lower ui (humanize ui (step_key cls)) @ '' values'')
              # map (row_view ui w unit_str) rows
              @ (if 10 < length us then [TextView ''...''] else [])
              @ [TextView ''Proceed with these values?'',
                 SingleChoiceInputView [''Yes'', ''No''] False, SpacerView 1]\<rparr>"
  have su: "setup_step ui cls filepaths d = Inr (step, fillmetadata (step_key cls) filepaths d)"
    using assms(1) nall uq cne
    by (simp add: setup_step_def Let_def observed_vals_def [symmetric] vals_def [symmetric]
        lst wf sg step_def unit_str_def)
  have st: "\<not> is_missing step"
    "suggestion step = Some (display_str ui (format ui (snd (hd rows))))"
    "fst (next_step (snd (snd (run_step step (Some ''No''))))) = ToSetMetadataStep (suggestion step)"
    by (simp_all add: step_def run_step_def next_step_def)
  have vw: "views step = TextView (''Check '' @ lower ui (humanize ui (step_key cls)) @ '' values'')
              # map (row_view ui w unit_str) rows
              @ (if 10 < length us then [TextView ''...''] else [])
              @ [TextView ''Proceed with these values?'',
                 SingleChoiceInputView [''Yes'', ''No''] False, SpacerView 1]"
    by (simp add: step_def)
  have l10: "length rows \<le> 10" by (simp add: rows_def)
  show ?thesis
    apply (rule exI [where x = step], rule exI [where x = us])
    apply (rule exI [where x = cs], rule exI [where x = rows])
    unfolding vals_def [symmetric] pv_def [symmetric] w_def [symmetric] unit_str_def [symmetric]
    using su uq rne l10 dist cnt vw st rows_def
    apply (intro conjI)
    apply assumption+
    done
qed

text \<open>
  C4 (as amended). Whenever \<open>setup\<close> returns a step that is not missing, the step
  lists at most ten of the distinct values (the pairs of \<open>counts[i]\<close> and
  \<open>uniquevals[i]\<close> for the first indices \<open>i\<close>), each in a row with the number of its
  occurrences, and the suggestion is the display text of the first listed value; on the
  answer \<open>"No"\<close>, \<open>next\<close> constructs the \<open>SetMetadataStep\<close> with that suggestion.
\<close>

theorem check_metadata_listing:
  assumes "setup_step ui cls filepaths d = Inr (step, d')" and "\<not> is_missing step"
  shows "\<exists>uniquevals counts rows.
      np_unique (observed_vals ui cls filepaths d) = Inr (uniquevals, counts)
      \<and> rows = take 10 (zip counts uniquevals)
      \<and> rows \<noteq> [] \<and> length rows \<le> 10 \<and> distinct (map snd rows)
      \<and> (\<forall>(c, u) \<in> set rows.
            c = count_list (present (observed_vals ui cls filepaths d)) u \<and> 0 < c)
      \<and> views step =
          TextView (''Check '' @ lower ui (humanize ui (step_key cls)) @ '' values'')
          # map (row_view ui (Max (length ` set (column1_of rows)))
                   (if step_key cls = ''slice_timing'' then []
                    else case step_unit cls of None \<Rightarrow> [] | Some x \<Rightarrow> x)) rows
          @ (if 10 < length uniquevals then [TextView ''...''] else [])
          @ [TextView ''Proceed with these values?'',
             SingleChoiceInputView [''Yes'', ''No''] False, SpacerView 1]
      \<and> suggestion step = Some (display_str ui (format ui (snd (hd rows))))
      \<and> fst (next_step (snd (snd (run_step step (Some ''No'')))))
          = ToSetMetadataStep (suggestion step)"
proof -
  define vals where "vals = observed_vals ui cls filepaths d"
  have ns: "\<not> step_should_skip cls"
    using assms by (auto simp: setup_step_def)
  have nall: "\<not> list_all (\<lambda>val. val = None) vals"
    using assms ns
    by (auto simp: setup_step_def Let_def observed_vals_def [symmetric] vals_def [symmetric])
  then have ne: "filepaths \<noteq> []"
    by (auto simp: vals_def observed_vals_map)
  have "\<exists>uc. np_unique vals = Inr uc"
    using assms ns nall
    by (cases "np_unique vals")
       (auto simp: setup_step_def Let_def observed_vals_def [symmetric] vals_def [symmetric])
  then have "\<not> list_ex (\<lambda>val. val = None) vals"
    by (auto simp: np_unique_def split: if_splits)
  then have pres: "\<forall>filepath \<in> set filepaths.
           metadata (fillmetadata (step_key cls) filepaths d) filepath (step_key cls) \<noteq> None"
    by (simp add: vals_def observed_no_None)
  from check_metadata_listing_total [OF ns ne pres, of ui] assms(1)
  show ?thesis by auto
qed

theorem check_metadata_listing_witness:
  "np_unique (observed_vals plain_ui space_class spaces_files spaces_example)
     = Inr ([''MNI152NLin2009cAsym'', ''MNI152NLin6Asym'', ''Native''], [2, 3, 1])
   \<and> map_sum id (\<lambda>(step, d). (is_missing step, suggestion step))
        (setup_step plain_ui space_class spaces_files spaces_example)
     = Inr (False, Some ''MNI ICBM 2009c Nonlinear Asymmetric'')"
proof -
  let ?outcome = "setup_step plain_ui space_class spaces_files spaces_example"
  have "map_sum id (\<lambda>(step, d). is_missing step) ?outcome = Inr False"
    by code_simp
  then obtain step d' where su: "?outcome = Inr (step, d')" and nm: "\<not> is_missing step"
    by (cases ?outcome) auto
  have u: "np_unique (observed_vals plain_ui space_class spaces_files spaces_example)
     = Inr ([''MNI152NLin2009cAsym'', ''MNI152NLin6Asym'', ''Native''], [2, 3, 1])"
    by code_simp
  from check_metadata_listing [OF su nm] u
  have "suggestion step = Some (display_str plain_ui (format plain_ui
        (snd (hd (take 10 (zip [2, 3, 1 :: nat]
           [''MNI152NLin2009cAsym'', ''MNI152NLin6Asym'', ''Native'']))))))"
    by auto
  then have "suggestion step = Some ''MNI ICBM 2009c Nonlinear Asymmetric''"
    by (simp add: plain_ui_def display_str_def)
  with su nm u show ?thesis by simp
qed

text \<open>
  C4 as stated fails: with the values \<open>MNI152NLin2009cAsym\<close> (twice),
  \<open>MNI152NLin6Asym\<close> (three times) and \<open>Native\<close> (once), the rows come with the
  counts 2, 3, 1, which is not ascending, and on \<open>"No"\<close> the suggestion is the display
  text of \<open>MNI152NLin2009cAsym\<close>, which is not the most frequent value.
\<close>

theorem listing_not_by_count:
  "map_sum id
     (\<lambda>(step, d). (views step, fst (next_step (snd (snd (run_step step (Some ''No'')))))))
     (setup_step plain_ui space_class spaces_files spaces_example)
   = Inr ([TextView ''Check space values'',
           TextView '' 2 images - MNI ICBM 2009c Nonlinear Asymmetric '',
           TextView '' 3 images - MNI ICBM 152 non-linear 6th Generation Asymmetric (FSL) '',
           TextView '' 1 images - Native '',
           TextView ''Proceed with these values?'',
           SingleChoiceInputView [''Yes'', ''No''] False,
           SpacerView 1],
          ToSetMetadataStep (Some ''MNI ICBM 2009c Nonlinear Asymmetric''))"
  by code_simp

end
